theory Spec2Isabelle
  imports Complex_Main
begin

section \<open>Numbers and vectors\<close>

text \<open>
  The backend is TypeScript. The arithmetic of the scoring pipeline is read as exact
  arithmetic: there a JavaScript \<^verbatim>\<open>number\<close> is a \<^typ>\<open>real\<close>, and rounding,
  infinities and NaN are outside the model. An embedding vector
  (\<^verbatim>\<open>type EmbeddingVector = number[]\<close>) is then a list of reals.

  What \<^verbatim>\<open>cosineSimilarity\<close> returns as the program runs depends on rounding, so its
  code is translated once, over the arithmetic operations it uses, and read twice: in
  exact arithmetic, which is the reading the scoring pipeline uses, and in IEEE-754
  binary64 arithmetic, which is what a JavaScript engine computes.
\<close>

type_synonym EmbeddingVector = "real list"

subsection \<open>IEEE-754 binary64\<close>

text \<open>
  A \<^verbatim>\<open>number\<close> is a finite value, one of the two infinities, or NaN. A finite value
  is kept as the real number it denotes; the two zeros are identified (no comparison in
  the code tells them apart, and \<^verbatim>\<open>cosineSimilarity\<close> never divides by zero).
\<close>

datatype number = Finite real | PosInf | NegInf | NaN

text \<open>
  Rounding to nearest, ties to even. A binary64 value has 53 significant bits and an
  exponent between \<open>-1022\<close> and \<open>1023\<close>: a real \<open>x\<close> with
  \<open>2\<^sup>e \<le> |x| < 2\<^sup>e\<^sup>+\<^sup>1\<close> is rounded to the nearest multiple of the quantum
  \<open>2\<^sup>e\<^sup>-\<^sup>5\<^sup>2\<close>, where \<open>e\<close> is not taken below \<open>-1022\<close> (so that small values
  land on the subnormal grid of step \<open>2\<^sup>-\<^sup>1\<^sup>0\<^sup>7\<^sup>4\<close>, or on zero); a result of
  magnitude \<open>2\<^sup>1\<^sup>0\<^sup>2\<^sup>4\<close> overflows to an infinity.
\<close>

definition roundHalfEven :: "real \<Rightarrow> int" where
  "roundHalfEven x =
     (let f = \<lfloor>x\<rfloor>; d = x - of_int f
      in if d < 1 / 2 then f else if d > 1 / 2 then f + 1 else if even f then f else f + 1)"

definition exponentOf :: "real \<Rightarrow> int" where
  "exponentOf x = max \<lfloor>log 2 \<bar>x\<bar>\<rfloor> (- 1022)"

definition round64 :: "real \<Rightarrow> number" where
  "round64 x =
     (if x = 0 then Finite 0
      else
        (let quantum = 2 powi (exponentOf x - 52);
             r = of_int (roundHalfEven (x / quantum)) * quantum
         in if r \<ge> 2 powi 1024 then PosInf
            else if r \<le> - (2 powi 1024) then NegInf
            else Finite r))"

text \<open>
  The operations the code uses: \<^verbatim>\<open>+\<close>, \<^verbatim>\<open>*\<close>, \<^verbatim>\<open>/\<close>, \<^verbatim>\<open>Math.sqrt\<close> (taken
  as the correctly rounded square root, the hardware instruction the engines use) and
  the truthiness test \<^verbatim>\<open>!x\<close>, which holds of zero and of NaN.
\<close>

definition signedInfinity :: "bool \<Rightarrow> number" where
  "signedInfinity negative = (if negative then NegInf else PosInf)"

fun fadd :: "number \<Rightarrow> number \<Rightarrow> number" where
  "fadd (Finite a) (Finite b) = round64 (a + b)"
| "fadd NaN _ = NaN"
| "fadd _ NaN = NaN"
| "fadd PosInf NegInf = NaN"
| "fadd NegInf PosInf = NaN"
| "fadd PosInf _ = PosInf"
| "fadd _ PosInf = PosInf"
| "fadd NegInf _ = NegInf"
| "fadd _ NegInf = NegInf"

fun fmul :: "number \<Rightarrow> number \<Rightarrow> number" where
  "fmul (Finite a) (Finite b) = round64 (a * b)"
| "fmul NaN _ = NaN"
| "fmul _ NaN = NaN"
| "fmul PosInf (Finite b) = (if b = 0 then NaN else signedInfinity (b < 0))"
| "fmul NegInf (Finite b) = (if b = 0 then NaN else signedInfinity (0 < b))"
| "fmul (Finite a) PosInf = (if a = 0 then NaN else signedInfinity (a < 0))"
| "fmul (Finite a) NegInf = (if a = 0 then NaN else signedInfinity (0 < a))"
| "fmul PosInf PosInf = PosInf"
| "fmul NegInf NegInf = PosInf"
| "fmul PosInf NegInf = NegInf"
| "fmul NegInf PosInf = NegInf"

fun fdiv :: "number \<Rightarrow> number \<Rightarrow> number" where
  "fdiv (Finite a) (Finite b) =
     (if b = 0 then (if a = 0 then NaN else signedInfinity (a < 0)) else round64 (a / b))"
| "fdiv NaN _ = NaN"
| "fdiv _ NaN = NaN"
| "fdiv (Finite a) PosInf = Finite 0"
| "fdiv (Finite a) NegInf = Finite 0"
| "fdiv PosInf (Finite b) = signedInfinity (b < 0)"
| "fdiv NegInf (Finite b) = signedInfinity (0 \<le> b)"
| "fdiv _ _ = NaN"

fun fsqrt :: "number \<Rightarrow> number" where
  "fsqrt (Finite a) = (if a < 0 then NaN else round64 (sqrt a))"
| "fsqrt PosInf = PosInf"
| "fsqrt _ = NaN"

fun falsy :: "number \<Rightarrow> bool" where
  "falsy (Finite a) = (a = 0)"
| "falsy NaN = True"
| "falsy _ = False"

subsection \<open>The two readings of the arithmetic\<close>

record 'a Arithmetic =
  opZero :: 'a
  opAdd :: "'a \<Rightarrow> 'a \<Rightarrow> 'a"
  opMul :: "'a \<Rightarrow> 'a \<Rightarrow> 'a"
  opDiv :: "'a \<Rightarrow> 'a \<Rightarrow> 'a"
  opSqrt :: "'a \<Rightarrow> 'a"
  opFalsy :: "'a \<Rightarrow> bool"

definition binary64 :: "number Arithmetic" where
  "binary64 = \<lparr>opZero = Finite 0, opAdd = fadd, opMul = fmul, opDiv = fdiv, opSqrt = fsqrt,
     opFalsy = falsy\<rparr>"

definition exactArithmetic :: "real Arithmetic" where
  "exactArithmetic = \<lparr>opZero = 0, opAdd = (+), opMul = (*), opDiv = (/), opSqrt = sqrt,
     opFalsy = (\<lambda>x. x = 0)\<rparr>"

subsection \<open>\<^verbatim>\<open>cosineSimilarity\<close> (embeddingCache.ts)\<close>

text \<open>
  \<^verbatim>\<open>
  for (let i = 0; i < minLength; i++) {
    const va = a[i] ?? 0;  const vb = b[i] ?? 0;
    dot += va * vb;  normA += va * va;  normB += vb * vb;
  }
  \<close>
  The loop walks both arrays in step and stops at the end of the shorter one; the three
  accumulators are threaded through. For \<open>i < minLength\<close> both reads are in range, so
  the \<^verbatim>\<open>?? 0\<close> defaults are never taken on arrays of numbers.
\<close>

fun cosineLoop :: "'a Arithmetic \<Rightarrow> 'a list \<Rightarrow> 'a list \<Rightarrow> 'a \<times> 'a \<times> 'a \<Rightarrow> 'a \<times> 'a \<times> 'a" where
  "cosineLoop ar (va # as) (vb # bs) (dot, normA, normB) =
     cosineLoop ar as bs (opAdd ar dot (opMul ar va vb), opAdd ar normA (opMul ar va va),
       opAdd ar normB (opMul ar vb vb))"
| "cosineLoop ar _ _ acc = acc"

text \<open>
  \<^verbatim>\<open>
  if (minLength === 0) return 0;  ...loop...
  if (!normA || !normB) return 0;
  return dot / (Math.sqrt(normA) * Math.sqrt(normB));
  \<close>
\<close>

definition cosineSimilarityIn :: "'a Arithmetic \<Rightarrow> 'a list \<Rightarrow> 'a list \<Rightarrow> 'a" where
  "cosineSimilarityIn ar a b =
     (let lenA = length a; lenB = length b; minLength = min lenA lenB in
      if minLength = 0 then opZero ar
      else (case cosineLoop ar a b (opZero ar, opZero ar, opZero ar) of (dot, normA, normB) \<Rightarrow>
        if opFalsy ar normA \<or> opFalsy ar normB then opZero ar
        else opDiv ar dot (opMul ar (opSqrt ar normA) (opSqrt ar normB))))"

text \<open>The reading in exact arithmetic, which \<open>scoreProduct\<close> below uses.\<close>

definition cosineSimilarity :: "EmbeddingVector \<Rightarrow> EmbeddingVector \<Rightarrow> real" where
  "cosineSimilarity = cosineSimilarityIn exactArithmetic"

text \<open>
  The quantities the specification speaks of: the length of the overlapping prefix; the
  dot product and the sum of squares accumulated from left to right in a given
  arithmetic; and, in exact arithmetic, the dot product and the magnitude over a prefix.
\<close>

definition overlap :: "'a list \<Rightarrow> 'b list \<Rightarrow> nat" where
  "overlap a b = min (length a) (length b)"

definition dotOver :: "'a Arithmetic \<Rightarrow> 'a list \<Rightarrow> 'a list \<Rightarrow> 'a" where
  "dotOver ar a b = foldl (\<lambda>acc (x, y). opAdd ar acc (opMul ar x y)) (opZero ar) (zip a b)"

definition squaresOver :: "'a Arithmetic \<Rightarrow> 'a list \<Rightarrow> 'a" where
  "squaresOver ar a = foldl (\<lambda>acc x. opAdd ar acc (opMul ar x x)) (opZero ar) a"

definition dotPrefix :: "real list \<Rightarrow> real list \<Rightarrow> real" where
  "dotPrefix a b = (\<Sum>i < overlap a b. a ! i * b ! i)"

definition magPrefix :: "nat \<Rightarrow> real list \<Rightarrow> real" where
  "magPrefix n a = sqrt (\<Sum>i < n. a ! i * a ! i)"

section \<open>JavaScript strings\<close>

text \<open>
  A JavaScript string is modelled as a \<^typ>\<open>string\<close>, each \<^typ>\<open>char\<close> standing for one
  UTF-16 code unit in the range U+0000..U+00FF. On that range the functions below are the
  ECMAScript ones; text outside Latin-1 is outside the model.
\<close>

definition isWhiteSpace :: "char \<Rightarrow> bool" where
  \<comment> \<open>what \<^verbatim>\<open>trim\<close> strips and the regular expression class \<^verbatim>\<open>\s\<close> matches: TAB, LF, VT, FF, CR, space, NBSP\<close>
  "isWhiteSpace c = (let n = (of_char c :: nat) in (9 \<le> n \<and> n \<le> 13) \<or> n = 32 \<or> n = 160)"

definition toLowerChar :: "char \<Rightarrow> char" where
  "toLowerChar c = (let n = (of_char c :: nat) in
     if (65 \<le> n \<and> n \<le> 90) \<or> (192 \<le> n \<and> n \<le> 222 \<and> n \<noteq> 215) then char_of (n + 32) else c)"

definition toLowerCase :: "string \<Rightarrow> string" where
  "toLowerCase s = map toLowerChar s"

definition trim :: "string \<Rightarrow> string" where
  "trim s = rev (dropWhile isWhiteSpace (rev (dropWhile isWhiteSpace s)))"

fun startsWith :: "string \<Rightarrow> string \<Rightarrow> bool" where
  "startsWith s [] = True"
| "startsWith [] (c # cs) = False"
| "startsWith (d # ds) (c # cs) = (d = c \<and> startsWith ds cs)"

fun includesStr :: "string \<Rightarrow> string \<Rightarrow> bool" where
  \<comment> \<open>\<^verbatim>\<open>s.includes(t)\<close>: \<open>t\<close> occurs in \<open>s\<close> as a contiguous run\<close>
  "includesStr [] t = (t = [])"
| "includesStr (c # cs) t = (startsWith (c # cs) t \<or> includesStr cs t)"

definition slice :: "'a list \<Rightarrow> nat \<Rightarrow> nat \<Rightarrow> 'a list" where
  \<comment> \<open>\<^verbatim>\<open>xs.slice(start, end)\<close> for non-negative integer bounds\<close>
  "slice xs start end = take (end - start) (drop start xs)"

fun join :: "string \<Rightarrow> string list \<Rightarrow> string" where
  \<comment> \<open>\<^verbatim>\<open>parts.join(sep)\<close>\<close>
  "join sep [] = []"
| "join sep [x] = x"
| "join sep (x # y # ys) = x @ sep @ join sep (y # ys)"

section \<open>Data model (types.ts)\<close>

text \<open>
  \<^verbatim>\<open>interface Product { _id; title; description; category; type; price; width; height; depth }\<close>.
  The field \<^verbatim>\<open>_id\<close> is written \<open>p_id\<close>; the three dimensions are never read by the
  search service and are left out.
\<close>

record Product =
  p_id :: string
  title :: string
  description :: string
  category :: string
  type :: string
  price :: real

text \<open>
  A thrown JavaScript exception is a value: \<open>Error msg\<close> is \<^verbatim>\<open>new Error(msg)\<close>,
  \<open>TypeError msg\<close> is the engine's own TypeError.
\<close>

datatype error = Error string | TypeError string

fun message :: "error \<Rightarrow> string" where
  "message (Error m) = m"
| "message (TypeError m) = m"

section \<open>Provider clients (aiProvider.ts)\<close>

text \<open>
  \<^verbatim>\<open>interface EmbeddingResponse { embedding: number[] }\<close>. The cache code tests
  \<^verbatim>\<open>item.embedding\<close> for truthiness before storing it, so a response item whose
  \<^verbatim>\<open>embedding\<close> is missing is representable: \<open>None\<close>.
\<close>

record EmbeddingResponse =
  embedding :: "EmbeddingVector option"

text \<open>
  One invocation of \<^verbatim>\<open>client.createEmbeddings(texts, model)\<close>, with the provider and
  the credential the client was built from.
\<close>

record EmbeddingCall =
  callProvider :: string
  callApiKey :: string
  callModel :: "string option"
  callTexts :: "string list"

text \<open>
  The OpenAI and Google clients forward to a remote service through the vendor SDK. What
  the service answers is a parameter of the model: a \<open>Backend\<close> maps the number of
  embedding calls made so far in this process and the call itself to the outcome of
  \<^verbatim>\<open>createEmbeddings\<close> (the list of response items, or the error the client throws),
  so that a service may answer differently over time.
\<close>

type_synonym Backend = "nat \<Rightarrow> EmbeddingCall \<Rightarrow> error + EmbeddingResponse list"

text \<open>
  The process state the embedding code touches: the module-level
  \<^verbatim>\<open>productEmbeddingCache = new Map<string, EmbeddingVector>()\<close> and, for counting, the log
  of every \<^verbatim>\<open>createEmbeddings\<close> invocation in order.
\<close>

record State =
  productEmbeddingCache :: "string \<rightharpoonup> EmbeddingVector"
  calls :: "EmbeddingCall list"

text \<open>
  \<^verbatim>\<open>createAIProviderClient\<close>: the \<^verbatim>\<open>switch\<close> over the provider string; anything but the
  three known names throws.
\<close>

definition createAIProviderClient :: "string \<Rightarrow> error + string" where
  "createAIProviderClient provider =
     (if provider = ''openai'' then Inr ''openai''
      else if provider = ''anthropic'' then Inr ''anthropic''
      else if provider = ''google'' then Inr ''google''
      else Inl (Error (''Unsupported provider: '' @ provider)))"

definition anthropicEmbeddingsError :: error where
  "anthropicEmbeddingsError = Error (''Anthropic does not provide a native embeddings API. '' @
     ''Please use OpenAI for embeddings or configure a different provider for embeddings.'')"

text \<open>
  \<^verbatim>\<open>client.createEmbeddings(texts, model)\<close> on a client made by
  \<^const>\<open>createAIProviderClient\<close>. The Anthropic client throws without contacting any
  service; the other two ask the backend. Every invocation is logged.
\<close>

definition createEmbeddings ::
  "Backend \<Rightarrow> string \<Rightarrow> string \<Rightarrow> string option \<Rightarrow> string list \<Rightarrow> State
     \<Rightarrow> (error + EmbeddingResponse list) \<times> State" where
  "createEmbeddings backend client apiKey model texts s =
     (let call = \<lparr>callProvider = client, callApiKey = apiKey, callModel = model, callTexts = texts\<rparr>;
          s' = s\<lparr>calls := calls s @ [call]\<rparr>
      in if client = ''anthropic'' then (Inl anthropicEmbeddingsError, s')
         else (backend (length (calls s)) call, s'))"

section \<open>The embedding cache (embeddingCache.ts)\<close>

definition BATCH_SIZE :: nat where
  "BATCH_SIZE = 100"

text \<open>
  \<^verbatim>\<open>[p.title, p.category, p.type, p.description].filter(Boolean).join(" | ")\<close>
\<close>

definition embeddingText :: "Product \<Rightarrow> string" where
  "embeddingText p = join '' | '' (filter (\<lambda>x. x \<noteq> []) [title p, category p, type p, description p])"

text \<open>
  The \<^verbatim>\<open>texts.forEach\<close> that fills \<^verbatim>\<open>validTexts\<close> and \<^verbatim>\<open>validIndices\<close>: the
  texts that are not blank after \<^verbatim>\<open>trim()\<close>, with their positions in the batch.
\<close>

definition validEntries :: "string list \<Rightarrow> (nat \<times> string) list" where
  "validEntries texts = filter (\<lambda>(idx, text). length (trim text) > 0) (enumerate 0 texts)"

definition validTexts :: "string list \<Rightarrow> string list" where
  "validTexts texts = map snd (validEntries texts)"

definition validIndices :: "string list \<Rightarrow> nat list" where
  "validIndices texts = map fst (validEntries texts)"

text \<open>
  \<^verbatim>\<open>
  embeddings.forEach((item, responseIdx) => {
    const batchIdx = validIndices[responseIdx];
    if (batchIdx === undefined) return;
    const product = batch[batchIdx];
    if (product && item.embedding) productEmbeddingCache.set(product._id, item.embedding);
  });
  \<close>
  Response items beyond the end of \<^verbatim>\<open>validIndices\<close> are skipped, so the walk is over both
  lists in step.
\<close>

fun storeEmbeddings ::
  "Product list \<Rightarrow> nat list \<Rightarrow> EmbeddingResponse list \<Rightarrow> (string \<rightharpoonup> EmbeddingVector)
     \<Rightarrow> (string \<rightharpoonup> EmbeddingVector)" where
  "storeEmbeddings batch (batchIdx # idxs) (item # items) cache =
     storeEmbeddings batch idxs items
       (if batchIdx < length batch then
          (case embedding item of
             Some v \<Rightarrow> cache(p_id (batch ! batchIdx) \<mapsto> v)
           | None \<Rightarrow> cache)
        else cache)"
| "storeEmbeddings batch _ _ cache = cache"

text \<open>
  The \<^verbatim>\<open>catch\<close> around the provider call: two kinds of message are replaced by a fresh
  \<^verbatim>\<open>Error\<close> naming the provider, every other error is rethrown as it is.
\<close>

definition rethrowEmbeddingError :: "string \<Rightarrow> error \<Rightarrow> error" where
  "rethrowEmbeddingError provider err =
     (if includesStr (message err) ''Invalid'' \<and> includesStr (message err) ''API key''
      then Error (''Invalid '' @ provider @ '' API key. Please check your API key and try again.'')
      else if includesStr (message err) ''rate limit''
      then Error (provider @ '' API rate limit exceeded. Please wait a moment and try again.'')
      else err)"

text \<open>
  The batch loop \<^verbatim>\<open>for (let i = 0; i < missingProducts.length; i += BATCH_SIZE)\<close>.
  The result is the error that left the loop, if any, and the state at that moment.
\<close>

function batchLoop ::
  "Backend \<Rightarrow> string \<Rightarrow> string \<Rightarrow> string \<Rightarrow> string option \<Rightarrow> Product list \<Rightarrow> nat \<Rightarrow> State
     \<Rightarrow> error option \<times> State" where
  "batchLoop backend client provider apiKey model missingProducts i s =
     (if i < length missingProducts then
        (let batch = slice missingProducts i (i + BATCH_SIZE);
             texts = map embeddingText batch
         in if validTexts texts = [] then
              batchLoop backend client provider apiKey model missingProducts (i + BATCH_SIZE) s
            else
              (case createEmbeddings backend client apiKey model (validTexts texts) s of
                 (Inl err, s') \<Rightarrow> (Some (rethrowEmbeddingError provider err), s')
               | (Inr embeddings, s') \<Rightarrow>
                   batchLoop backend client provider apiKey model missingProducts (i + BATCH_SIZE)
                     (s'\<lparr>productEmbeddingCache :=
                           storeEmbeddings batch (validIndices texts) embeddings
                             (productEmbeddingCache s')\<rparr>)))
      else (None, s))"
  by pat_completeness auto
termination
  by (relation "measure (\<lambda>(backend, client, provider, apiKey, model, missingProducts, i, s).
        length missingProducts - i)") (auto simp: BATCH_SIZE_def)

declare batchLoop.simps [simp del]

text \<open>
  \<^verbatim>\<open>const missingProducts = products.filter((p) => !productEmbeddingCache.has(p._id))\<close>
\<close>

definition missingProducts :: "State \<Rightarrow> Product list \<Rightarrow> Product list" where
  "missingProducts s products = filter (\<lambda>p. productEmbeddingCache s (p_id p) = None) products"

text \<open>
  \<^verbatim>\<open>getProductEmbeddings(products, provider, apiKey, model)\<close>. The value returned on
  success is \<^verbatim>\<open>productEmbeddingCache\<close> itself, the whole map.
\<close>

definition getProductEmbeddings ::
  "Backend \<Rightarrow> Product list \<Rightarrow> string \<Rightarrow> string \<Rightarrow> string option \<Rightarrow> State
     \<Rightarrow> (error + (string \<rightharpoonup> EmbeddingVector)) \<times> State" where
  "getProductEmbeddings backend products provider apiKey model s =
     (case createAIProviderClient provider of
        Inl err \<Rightarrow> (Inl err, s)
      | Inr client \<Rightarrow>
          (let missing = missingProducts s products
           in if length missing > 0 then
                (case batchLoop backend client provider apiKey model missing 0 s of
                   (Some err, s') \<Rightarrow> (Inl err, s')
                 | (None, s') \<Rightarrow> (Inr (productEmbeddingCache s'), s'))
              else (Inr (productEmbeddingCache s), s)))"

section \<open>Search configuration (types.ts, searchService.ts)\<close>

text \<open>
  \<^verbatim>\<open>interface SearchConfig\<close>: every field may be \<^verbatim>\<open>undefined\<close>, which is \<open>None\<close>.
  \<^verbatim>\<open>maxCandidates\<close> and \<^verbatim>\<open>topK\<close> are integers (the route's schema checks
  \<^verbatim>\<open>z.number().int()\<close>); the other numbers are reals.
\<close>

record SearchConfig =
  maxCandidates :: "int option"
  topK :: "int option"
  minScore :: "real option"
  imageWeight :: "real option"
  textWeight :: "real option"
  priceProximityWeight :: "real option"
  priceRangeEnabled :: "bool option"
  priceRangeMin :: "real option"
  priceRangeMax :: "real option"
  aiProvider :: "string option"
  aiModel :: "string option"
  embeddingProvider :: "string option"
  embeddingModel :: "string option"

definition defaultConfig :: SearchConfig where
  "defaultConfig = \<lparr>maxCandidates = Some 200, topK = Some 20, minScore = Some 0.35,
     imageWeight = Some 0.5, textWeight = Some 0.3, priceProximityWeight = Some 0.2,
     priceRangeEnabled = None, priceRangeMin = None, priceRangeMax = None,
     aiProvider = None, aiModel = None, embeddingProvider = None, embeddingModel = None\<rparr>"

text \<open>
  The caller's \<^verbatim>\<open>userConfig?: Partial<SearchConfig>\<close>. An object literal may leave a
  key out, or carry it as an own key whose value is \<^verbatim>\<open>undefined\<close>; the two differ
  under the spread below, so each key is \<open>Absent\<close> or \<open>Own v\<close>, with \<open>v\<close> possibly
  \<open>None\<close>.
\<close>

datatype 'a OwnKey = Absent | Own 'a

record PartialSearchConfig =
  maxCandidatesKey :: "int option OwnKey"
  topKKey :: "int option OwnKey"
  minScoreKey :: "real option OwnKey"
  imageWeightKey :: "real option OwnKey"
  textWeightKey :: "real option OwnKey"
  priceProximityWeightKey :: "real option OwnKey"
  priceRangeEnabledKey :: "bool option OwnKey"
  priceRangeMinKey :: "real option OwnKey"
  priceRangeMaxKey :: "real option OwnKey"
  aiProviderKey :: "string option OwnKey"
  aiModelKey :: "string option OwnKey"
  embeddingProviderKey :: "string option OwnKey"
  embeddingModelKey :: "string option OwnKey"

text \<open>
  \<^verbatim>\<open>const config = { ...defaultConfig, ...userConfig }\<close>: every own key of the caller's
  object overwrites the default, also one that holds \<^verbatim>\<open>undefined\<close>; an absent key
  leaves the default. Spreading \<^verbatim>\<open>undefined\<close> adds nothing.
\<close>

definition spread :: "'a \<Rightarrow> 'a OwnKey \<Rightarrow> 'a" where
  "spread dflt key = (case key of Absent \<Rightarrow> dflt | Own v \<Rightarrow> v)"

definition mergeConfig :: "PartialSearchConfig option \<Rightarrow> SearchConfig" where
  "mergeConfig userConfig =
     (case userConfig of
        None \<Rightarrow> defaultConfig
      | Some u \<Rightarrow>
          \<lparr>maxCandidates = spread (maxCandidates defaultConfig) (maxCandidatesKey u),
           topK = spread (topK defaultConfig) (topKKey u),
           minScore = spread (minScore defaultConfig) (minScoreKey u),
           imageWeight = spread (imageWeight defaultConfig) (imageWeightKey u),
           textWeight = spread (textWeight defaultConfig) (textWeightKey u),
           priceProximityWeight = spread (priceProximityWeight defaultConfig) (priceProximityWeightKey u),
           priceRangeEnabled = spread (priceRangeEnabled defaultConfig) (priceRangeEnabledKey u),
           priceRangeMin = spread (priceRangeMin defaultConfig) (priceRangeMinKey u),
           priceRangeMax = spread (priceRangeMax defaultConfig) (priceRangeMaxKey u),
           aiProvider = spread (aiProvider defaultConfig) (aiProviderKey u),
           aiModel = spread (aiModel defaultConfig) (aiModelKey u),
           embeddingProvider = spread (embeddingProvider defaultConfig) (embeddingProviderKey u),
           embeddingModel = spread (embeddingModel defaultConfig) (embeddingModelKey u)\<rparr>)"

text \<open>
  \<^verbatim>\<open>xs.slice(0, end)\<close> where \<^verbatim>\<open>end\<close> is an integer or \<^verbatim>\<open>undefined\<close>: no bound keeps
  the whole array, a negative bound counts from the end, and the bound is clamped to the
  length.
\<close>

definition sliceTo :: "'a list \<Rightarrow> int option \<Rightarrow> 'a list" where
  "sliceTo xs end =
     (case end of
        None \<Rightarrow> xs
      | Some e \<Rightarrow> if e < 0 then take (nat (int (length xs) + e)) xs else take (nat e) xs)"

text \<open>\<^verbatim>\<open>a || b\<close> on strings that may be \<^verbatim>\<open>undefined\<close>: the empty string is falsy too.\<close>

definition orString :: "string option \<Rightarrow> string \<Rightarrow> string" where
  "orString a b = (case a of Some x \<Rightarrow> if x = [] then b else x | None \<Rightarrow> b)"

section \<open>Scoring (searchService.ts)\<close>

text \<open>
  \<^verbatim>\<open>interface FurnitureAnalysis { isFurniture; category?; type?; description }\<close>, the parsed
  answer of the classification stage; its fields carry the prefix \<open>analysis\<close>.
\<close>

record FurnitureAnalysis =
  isFurniture :: bool
  analysisCategory :: "string option"
  analysisType :: "string option"
  analysisDescription :: string

subsection \<open>Target price\<close>

definition isDigit :: "char \<Rightarrow> bool" where
  \<comment> \<open>the class \<^verbatim>\<open>\d\<close>\<close>
  "isDigit c = (let n = (of_char c :: nat) in 48 \<le> n \<and> n \<le> 57)"

text \<open>
  \<^verbatim>\<open>queryText.match(/\$(\d+)/i)\<close>: the leftmost dollar sign that is followed by a digit;
  the group is the longest run of digits after it.
\<close>

fun matchDollarSign :: "string \<Rightarrow> string option" where
  "matchDollarSign [] = None"
| "matchDollarSign (c # cs) =
     (if c = CHR ''$'' \<and> takeWhile isDigit cs \<noteq> [] then Some (takeWhile isDigit cs)
      else matchDollarSign cs)"

text \<open>
  \<^verbatim>\<open>queryText.match(/(\d+)\s*dollars?/i)\<close>: the leftmost position where a run of digits,
  then any white space, then the word \<^verbatim>\<open>dollar\<close> in either case begins. Giving back
  digits or white space never helps the match, so the group is the whole run of digits
  from that position.
\<close>

fun matchDollarsWord :: "string \<Rightarrow> string option" where
  "matchDollarsWord [] = None"
| "matchDollarsWord (c # cs) =
     (let digits = takeWhile isDigit (c # cs);
          rest = dropWhile isWhiteSpace (dropWhile isDigit (c # cs))
      in if digits \<noteq> [] \<and> startsWith (toLowerCase rest) ''dollar'' then Some digits
         else matchDollarsWord cs)"

text \<open>\<^verbatim>\<open>parseFloat\<close> on a run of decimal digits.\<close>

definition parseDigits :: "string \<Rightarrow> real" where
  "parseDigits ds = real (foldl (\<lambda>n c. 10 * n + (of_char c - 48)) (0::nat) ds)"

text \<open>
  \<^verbatim>\<open>
  const priceMatch = queryText?.match(/\$(\d+)/i) || queryText?.match(/(\d+)\s*dollars?/i);
  const targetPrice = priceMatch && priceMatch[1] ? parseFloat(priceMatch[1]) : null;
  \<close>
\<close>

definition targetPrice :: "string option \<Rightarrow> real option" where
  "targetPrice queryText =
     (case queryText of
        None \<Rightarrow> None
      | Some q \<Rightarrow>
          (case matchDollarSign q of
             Some ds \<Rightarrow> if ds \<noteq> [] then Some (parseDigits ds) else None
           | None \<Rightarrow>
               (case matchDollarsWord q of
                  Some ds \<Rightarrow> if ds \<noteq> [] then Some (parseDigits ds) else None
                | None \<Rightarrow> None)))"

subsection \<open>Lexical overlap\<close>

text \<open>
  \<^verbatim>\<open>text.toLowerCase().replace(/[^a-z0-9\s]/g, " ").split(/\s+/).filter(Boolean)\<close>
\<close>

definition isTokenChar :: "char \<Rightarrow> bool" where
  "isTokenChar c = (let n = (of_char c :: nat) in (97 \<le> n \<and> n \<le> 122) \<or> (48 \<le> n \<and> n \<le> 57))"

fun splitWords :: "string \<Rightarrow> string \<Rightarrow> string list" where
  \<comment> \<open>the non-empty pieces between runs of white space; the first argument is the piece being read\<close>
  "splitWords cur [] = (if cur = [] then [] else [cur])"
| "splitWords cur (c # cs) =
     (if isWhiteSpace c then (if cur = [] then splitWords [] cs else cur # splitWords [] cs)
      else splitWords (cur @ [c]) cs)"

definition tokenize :: "string \<Rightarrow> string list" where
  "tokenize text =
     splitWords [] (map (\<lambda>c. if isTokenChar c \<or> isWhiteSpace c then c else CHR '' '') (toLowerCase text))"

text \<open>
  \<^verbatim>\<open>
  const qTokens = tokenize(query);  const tTokens = new Set(tokenize(text));
  if (qTokens.length === 0 || tTokens.size === 0) return 0;
  let overlap = 0;  for (const t of qTokens) { if (tTokens.has(t)) overlap++; }
  return overlap / qTokens.length;
  \<close>
\<close>

definition computeLexicalScore :: "string \<Rightarrow> string \<Rightarrow> real" where
  "computeLexicalScore query text =
     (let qTokens = tokenize query; tTokens = set (tokenize text)
      in if length qTokens = 0 \<or> tTokens = {} then 0
         else real (length (filter (\<lambda>t. t \<in> tTokens) qTokens)) / real (length qTokens))"

subsection \<open>Type and category match\<close>

definition stripTrailingS :: "string \<Rightarrow> string" where
  \<comment> \<open>\<^verbatim>\<open>s.replace(/s$/, "")\<close>\<close>
  "stripTrailingS s = (if s \<noteq> [] \<and> last s = CHR ''s'' then butlast s else s)"

definition similarTypes :: "(string \<times> string list) list" where
  "similarTypes =
     [(''bench'', [''bench'', ''stool'', ''seat'', ''ottoman'']),
      (''chair'', [''chair'', ''seat'', ''stool'', ''armchair'', ''recliner'']),
      (''sofa'', [''sofa'', ''couch'', ''loveseat'', ''settee'', ''divan'']),
      (''desk'', [''desk'', ''table'', ''workstation'', ''writing desk'']),
      (''table'', [''table'', ''desk'', ''counter'', ''dining table'', ''coffee table'', ''side table'']),
      (''cabinet'', [''cabinet'', ''cupboard'', ''wardrobe'', ''armoire'']),
      (''shelf'', [''shelf'', ''shelving'', ''bookcase'', ''bookshelf'']),
      (''bed'', [''bed'', ''mattress'', ''headboard'']),
      (''dresser'', [''dresser'', ''chest'', ''bureau'', ''drawer'']),
      (''lamp'', [''lamp'', ''light'', ''lighting''])]"

text \<open>
  \<^verbatim>\<open>similarTypes[key]\<close> reads a property of an object literal. A key of the table gives
  its array; any other key gives \<^verbatim>\<open>undefined\<close>, unless it names a member the object
  inherits from \<^verbatim>\<open>Object.prototype\<close>, which is then what the read returns.
\<close>

datatype PropertyValue = OwnArray "string list" | Inherited | Undefined

definition objectPrototypeKeys :: "string list" where
  "objectPrototypeKeys =
     [''constructor'', ''__proto__'', ''hasOwnProperty'', ''isPrototypeOf'',
      ''propertyIsEnumerable'', ''toLocaleString'', ''toString'', ''valueOf'',
      ''__defineGetter__'', ''__defineSetter__'', ''__lookupGetter__'', ''__lookupSetter__'']"

definition similarTypesGet :: "string \<Rightarrow> PropertyValue" where
  "similarTypesGet key =
     (case map_of similarTypes key of
        Some related \<Rightarrow> OwnArray related
      | None \<Rightarrow> if key \<in> set objectPrototypeKeys then Inherited else Undefined)"

text \<open>
  The callback of \<^verbatim>\<open>similar.some\<close>: the related term, or the term without its final
  \<^verbatim>\<open>s\<close>, occurs in the product's type, title or description.
\<close>

definition synonymOccurs :: "string \<Rightarrow> string \<Rightarrow> string \<Rightarrow> string \<Rightarrow> bool" where
  "synonymOccurs productType productTitle productDesc t =
     (let tSingular = stripTrailingS t
      in includesStr productType t \<or> includesStr productType tSingular \<or>
         includesStr productTitle t \<or> includesStr productTitle tSingular \<or>
         includesStr productDesc t \<or> includesStr productDesc tSingular)"

text \<open>
  \<^verbatim>\<open>typeMatchScore\<close>, lines 224 to 277. Every value an inherited member can have is
  truthy and has no \<^verbatim>\<open>some\<close> method, so calling it throws a TypeError out of the
  scoring callback.
\<close>

definition typeMatchScore :: "string option \<Rightarrow> Product \<Rightarrow> error + real" where
  "typeMatchScore analysisType' product =
     (case analysisType' of
        None \<Rightarrow> Inr 0
      | Some t \<Rightarrow>
          if t = [] then Inr 0
          else
            (let queryType = trim (toLowerCase t);
                 queryTypeSingular = stripTrailingS queryType;
                 productType = trim (toLowerCase (type product));
                 productTypeSingular = stripTrailingS productType;
                 productTitle = toLowerCase (title product);
                 productDesc = toLowerCase (description product)
             in if productType = queryType \<or> productTypeSingular = queryType
                   \<or> productType = queryTypeSingular then Inr 1.0
                else if includesStr productType queryType \<or> includesStr queryType productType \<or>
                        includesStr productType queryTypeSingular \<or>
                        includesStr queryTypeSingular productType then Inr 0.8
                else if includesStr productTitle queryType \<or> includesStr productTitle queryTypeSingular \<or>
                        includesStr productDesc queryType \<or> includesStr productDesc queryTypeSingular
                     then Inr 0.6
                else
                  (case (case similarTypesGet queryType of
                           Undefined \<Rightarrow> similarTypesGet queryTypeSingular
                         | found \<Rightarrow> found) of
                     OwnArray similar \<Rightarrow>
                       if list_ex (synonymOccurs productType productTitle productDesc) similar
                       then Inr 0.4 else Inr 0
                   | Undefined \<Rightarrow> Inr 0
                   | Inherited \<Rightarrow> Inl (TypeError ''similar.some is not a function''))))"

definition categoryMatchScore :: "string option \<Rightarrow> Product \<Rightarrow> real" where
  "categoryMatchScore analysisCategory' product =
     (case analysisCategory' of
        None \<Rightarrow> 0
      | Some c \<Rightarrow>
          if c = [] then 0
          else
            (let productCategory = toLowerCase (category product);
                 queryCategory = toLowerCase c
             in if productCategory = queryCategory then 1.0
                else if includesStr productCategory queryCategory \<or>
                        includesStr queryCategory productCategory then 0.7
                else 0))"

subsection \<open>Price proximity\<close>

text \<open>
  Lines 295 to 307. \<^verbatim>\<open>products\<close> is the array the candidates were cut from: the
  catalog after the optional price-range filter, before the \<^verbatim>\<open>maxCandidates\<close> cap.
\<close>

definition priceScore :: "SearchConfig \<Rightarrow> real option \<Rightarrow> Product list \<Rightarrow> Product \<Rightarrow> real" where
  "priceScore config target products product =
     (case priceProximityWeight config of
        None \<Rightarrow> 0
      | Some w \<Rightarrow>
          if w \<noteq> 0 \<and> w > 0 then
            (case target of
               Some targetPrice' \<Rightarrow>
                 (let priceDiff = \<bar>price product - targetPrice'\<bar>;
                      maxPrice = max (price product) targetPrice'
                  in if maxPrice > 0 then 1 - min (priceDiff / maxPrice) 1 else 0)
             | None \<Rightarrow>
                 (let avgPrice = foldl (\<lambda>sum p. sum + price p) 0 products / real (length products);
                      priceDiff = \<bar>price product - avgPrice\<bar>
                  in if avgPrice > 0 then 1 - min (priceDiff / avgPrice) 0.5 else 0.5))
          else 0)"

subsection \<open>Composite score and explanation\<close>

text \<open>
  \<^verbatim>\<open>interface ScoredProduct { product; score; explanation? }\<close>. The source renders the
  explanation as one string, \<^verbatim>\<open>name=value.toFixed(n)\<close> pieces joined by a comma; the
  model keeps the pieces as the ordered list of names with their values, before rendering.
\<close>

record ScoredProduct =
  product :: Product
  score :: real
  explanation :: "(string \<times> real) list"

definition scoreProduct ::
  "SearchConfig \<Rightarrow> FurnitureAnalysis \<Rightarrow> string \<Rightarrow> real option \<Rightarrow> Product list \<Rightarrow> EmbeddingVector
     \<Rightarrow> (string \<rightharpoonup> EmbeddingVector) \<Rightarrow> Product \<Rightarrow> error + ScoredProduct" where
  "scoreProduct config analysis combinedQueryText target products queryEmbedding productEmbeddings p =
     (let semanticScore = (case productEmbeddings (p_id p) of
                             Some e \<Rightarrow> cosineSimilarity queryEmbedding e
                           | None \<Rightarrow> 0);
          productText = toLowerCase (join '' '' [title p, category p, type p, description p]);
          queryTextLower = toLowerCase combinedQueryText
      in case typeMatchScore (analysisType analysis) p of
           Inl err \<Rightarrow> Inl err
         | Inr typeMatch \<Rightarrow>
             (let categoryMatch = categoryMatchScore (analysisCategory analysis) p;
                  lexicalScore = computeLexicalScore queryTextLower productText;
                  priceScore' = priceScore config target products p;
                  imageWeight' = (case imageWeight config of Some w \<Rightarrow> w | None \<Rightarrow> 0.5);
                  textWeight' = (case textWeight config of Some w \<Rightarrow> w | None \<Rightarrow> 0.3);
                  priceWeight = (case priceProximityWeight config of Some w \<Rightarrow> w | None \<Rightarrow> 0.2);
                  typeCategoryWeight = 0.25;
                  typeCategoryScore = typeMatch * 0.6 + categoryMatch * 0.4;
                  score' = imageWeight' * semanticScore + typeCategoryWeight * typeCategoryScore
                           + textWeight' * lexicalScore + priceWeight * priceScore';
                  explanationParts =
                    [(''typeMatch'', typeMatch), (''categoryMatch'', categoryMatch),
                     (''semantic'', semanticScore), (''lexical'', lexicalScore)]
                    @ (if priceWeight > 0 then [(''price'', priceScore')] else [])
              in Inr \<lparr>product = p, score = score', explanation = explanationParts\<rparr>))"

text \<open>\<^verbatim>\<open>candidates.map(...)\<close>: the first exception thrown by the callback ends the map.\<close>

fun mapOrThrow :: "('a \<Rightarrow> error + 'b) \<Rightarrow> 'a list \<Rightarrow> error + 'b list" where
  "mapOrThrow f [] = Inr []"
| "mapOrThrow f (x # xs) =
     (case f x of
        Inl err \<Rightarrow> Inl err
      | Inr y \<Rightarrow> (case mapOrThrow f xs of Inl err \<Rightarrow> Inl err | Inr ys \<Rightarrow> Inr (y # ys)))"

subsection \<open>Candidates and ranking\<close>

text \<open>
  Lines 197 to 204: the optional price-range filter, then
  \<^verbatim>\<open>const candidates = products.slice(0, config.maxCandidates)\<close>.
\<close>

definition priceRangeFilter :: "SearchConfig \<Rightarrow> Product list \<Rightarrow> Product list" where
  "priceRangeFilter config products =
     (case (priceRangeEnabled config, priceRangeMin config, priceRangeMax config) of
        (Some True, Some lo, Some hi) \<Rightarrow> filter (\<lambda>p. price p \<ge> lo \<and> price p \<le> hi) products
      | _ \<Rightarrow> products)"

definition candidates :: "SearchConfig \<Rightarrow> Product list \<Rightarrow> Product list" where
  "candidates config products = sliceTo products (maxCandidates config)"

text \<open>
  Lines 343 to 350: keep the scores that reach \<^verbatim>\<open>config.minScore ?? 0.35\<close>, sort by
  descending score (\<^verbatim>\<open>Array.prototype.sort\<close> is stable), cut to \<^verbatim>\<open>config.topK\<close>.
\<close>

definition threshold :: "SearchConfig \<Rightarrow> real" where
  \<comment> \<open>\<^verbatim>\<open>config.minScore ?? 0.35\<close>\<close>
  "threshold config = (case minScore config of Some m \<Rightarrow> m | None \<Rightarrow> 0.35)"

definition finalResults :: "SearchConfig \<Rightarrow> ScoredProduct list \<Rightarrow> ScoredProduct list" where
  "finalResults config scored =
     (let filtered = sort_key (\<lambda>s. - score s) (filter (\<lambda>s. score s \<ge> threshold config) scored)
      in sliceTo filtered (topK config))"

text \<open>
  \<^verbatim>\<open>createQueryEmbedding(queryText, provider, apiKey, model)\<close>: one provider call for the
  query text; an empty response gives the empty vector.
\<close>

definition createQueryEmbedding ::
  "Backend \<Rightarrow> string \<Rightarrow> string \<Rightarrow> string \<Rightarrow> string option \<Rightarrow> State
     \<Rightarrow> (error + EmbeddingVector) \<times> State" where
  "createQueryEmbedding backend queryText' provider apiKey model s =
     (case createAIProviderClient provider of
        Inl err \<Rightarrow> (Inl err, s)
      | Inr client \<Rightarrow>
          (case createEmbeddings backend client apiKey model [queryText'] s of
             (Inl err, s') \<Rightarrow> (Inl (rethrowEmbeddingError provider err), s')
           | (Inr embeddings, s') \<Rightarrow>
               (case embeddings of
                  [] \<Rightarrow> (Inr [], s')
                | first # _ \<Rightarrow>
                    (case embedding first of
                       None \<Rightarrow> (Inr [], s')
                     | Some v \<Rightarrow> (Inr v, s')))))"

section \<open>The search pipeline (\<^verbatim>\<open>performSearch\<close>)\<close>

record PerformSearchInput =
  visionApiKey :: string
  embeddingApiKey :: "string option"
  imageBase64 :: string
  queryText :: "string option"
  config :: "PartialSearchConfig option"

text \<open>
  Lines 40 to 51: which provider and model serve the embeddings. A configuration that
  resolves to \<^verbatim>\<open>"anthropic"\<close> is redirected to \<^verbatim>\<open>"openai"\<close>.
\<close>

definition visionProvider :: "SearchConfig \<Rightarrow> string" where
  "visionProvider config' = orString (aiProvider config') ''openai''"

definition embeddingSettings :: "SearchConfig \<Rightarrow> string \<times> string" where
  "embeddingSettings config' =
     (let provider = visionProvider config';
          embeddingProvider' = orString (embeddingProvider config') provider;
          embeddingModel' = orString (embeddingModel config')
            (if embeddingProvider' = ''openai'' then ''text-embedding-3-small''
             else if embeddingProvider' = ''google'' then ''text-embedding-004''
             else ''text-embedding-3-small'')
      in if embeddingProvider' = ''anthropic''
         then (''openai'', orString (Some embeddingModel') ''text-embedding-3-small'')
         else (embeddingProvider', embeddingModel'))"

text \<open>Lines 53 to 66: the credential for the embedding calls, or the error for a missing one.\<close>

definition finalEmbeddingApiKey :: "PerformSearchInput \<Rightarrow> string \<Rightarrow> string \<Rightarrow> error + string" where
  "finalEmbeddingApiKey input provider embeddingProvider' =
     (let key = (case embeddingApiKey input of
                   Some k \<Rightarrow> if k \<noteq> [] then Some k else None
                 | None \<Rightarrow> None);
          key' = (case key of
                    Some k \<Rightarrow> Some k
                  | None \<Rightarrow>
                      if embeddingProvider' = provider then Some (visionApiKey input)
                      else if embeddingProvider' = ''openai'' \<and> provider = ''anthropic''
                      then Some (visionApiKey input)
                      else None)
      in case key' of
           Some k \<Rightarrow>
             if k \<noteq> [] then Inr k
             else Inl (Error (''Missing API key for embedding provider: '' @ embeddingProvider'
                              @ ''. Please provide an embedding API key.''))
         | None \<Rightarrow> Inl (Error (''Missing API key for embedding provider: '' @ embeddingProvider'
                              @ ''. Please provide an embedding API key.'')))"

text \<open>
  Lines 68 to 184 talk to the vision model twice and parse its first answer. The model
  takes the outcome of that part as given: an error thrown out of it, an answer that does
  not start with \<^verbatim>\<open>FURNITURE\<close> (with the trimmed answer), or the parsed analysis
  together with the second answer, \<^verbatim>\<open>visionDescription\<close>.
\<close>

datatype VisionOutcome =
    VisionFailed error
  | NotFurniture string
  | IsFurniture FurnitureAnalysis string

text \<open>Lines 187 to 193: the query text sent to the embedding model and used for token overlap.\<close>

definition combinedQueryText :: "FurnitureAnalysis \<Rightarrow> string \<Rightarrow> string option \<Rightarrow> string" where
  "combinedQueryText analysis visionDescription queryText' =
     join ''. ''
       ((case analysisType analysis of
           Some t \<Rightarrow> if t \<noteq> [] then [''furniture type: '' @ t] else []
         | None \<Rightarrow> [])
        @ (case analysisCategory analysis of
             Some c \<Rightarrow> if c \<noteq> [] then [''category: '' @ c] else []
           | None \<Rightarrow> [])
        @ (if visionDescription \<noteq> [] then [visionDescription] else [])
        @ (case queryText' of
             Some q \<Rightarrow> if q \<noteq> [] then [''user preferences: '' @ q] else []
           | None \<Rightarrow> []))"

text \<open>
  What \<^verbatim>\<open>performSearch\<close> returns: the ranked list and the counters of its
  \<^verbatim>\<open>debug\<close> object (the fields that echo inputs back are left out).
\<close>

record SearchResult =
  results :: "ScoredProduct list"
  resultIsFurniture :: bool
  totalProducts :: nat
  considered :: nat
  topScore :: real
  resultsCount :: nat

text \<open>
  Lines 212 to 341: the target price and the scoring of every candidate, from the filtered
  catalog \<^verbatim>\<open>products\<close>.
\<close>

definition scoreCandidates ::
  "SearchConfig \<Rightarrow> FurnitureAnalysis \<Rightarrow> string \<Rightarrow> string option \<Rightarrow> Product list \<Rightarrow> EmbeddingVector
     \<Rightarrow> (string \<rightharpoonup> EmbeddingVector) \<Rightarrow> error + ScoredProduct list" where
  "scoreCandidates config' analysis combined queryText' products queryEmbedding productEmbeddings =
     mapOrThrow
       (scoreProduct config' analysis combined (targetPrice queryText') products
          queryEmbedding productEmbeddings)
       (candidates config' products)"

text \<open>
  \<^verbatim>\<open>performSearch\<close>. \<open>fetched\<close> is what \<^verbatim>\<open>fetchAllProducts()\<close> gives, the catalog or
  the error it throws. The two embedding requests of \<^verbatim>\<open>Promise.all\<close> are started in the
  order written, query first; the model runs them in that order and lets the product
  embeddings finish even when the query embedding fails, as the unawaited promise does.
  When both fail the source reports whichever rejects first in time; the model reports
  the query's error.
\<close>

definition performSearch ::
  "Backend \<Rightarrow> VisionOutcome \<Rightarrow> error + Product list \<Rightarrow> PerformSearchInput \<Rightarrow> State
     \<Rightarrow> (error + SearchResult) \<times> State" where
  "performSearch backend vision fetched input s =
     (let config' = mergeConfig (config input);
          provider = visionProvider config';
          (embeddingProvider', embeddingModel') = embeddingSettings config'
      in case finalEmbeddingApiKey input provider embeddingProvider' of
           Inl err \<Rightarrow> (Inl err, s)
         | Inr apiKey \<Rightarrow>
             (case createAIProviderClient provider of
                Inl err \<Rightarrow>
                  (Inl (Error (''Failed to initialize '' @ provider @ '' client: '' @ message err)), s)
              | Inr visionClient \<Rightarrow>
                  (case vision of
                     VisionFailed err \<Rightarrow> (Inl err, s)
                   | NotFurniture analysisContent \<Rightarrow>
                       (Inr \<lparr>results = [], resultIsFurniture = False, totalProducts = 0,
                              considered = 0, topScore = 0, resultsCount = 0\<rparr>, s)
                   | IsFurniture analysis visionDescription \<Rightarrow>
                       (let combined = combinedQueryText analysis visionDescription (queryText input)
                        in case fetched of
                             Inl err \<Rightarrow> (Inl err, s)
                           | Inr catalog \<Rightarrow>
                               (let products = priceRangeFilter config' catalog;
                                    (queryResult, s1) =
                                      createQueryEmbedding backend combined embeddingProvider' apiKey
                                        (Some embeddingModel') s;
                                    (productResult, s2) =
                                      getProductEmbeddings backend (candidates config' products)
                                        embeddingProvider' apiKey (Some embeddingModel') s1
                                in case queryResult of
                                     Inl err \<Rightarrow> (Inl err, s2)
                                   | Inr queryEmbedding \<Rightarrow>
                                       (case productResult of
                                          Inl err \<Rightarrow> (Inl err, s2)
                                        | Inr productEmbeddings \<Rightarrow>
                                            (case scoreCandidates config' analysis combined (queryText input)
                                                    products queryEmbedding productEmbeddings of
                                               Inl err \<Rightarrow> (Inl err, s2)
                                             | Inr scored \<Rightarrow>
                                                 (let final = finalResults config' scored
                                                  in (Inr \<lparr>results = final, resultIsFurniture = True,
                                                            totalProducts = length products,
                                                            considered = length (candidates config' products),
                                                            topScore = (case final of
                                                                          [] \<Rightarrow> 0
                                                                        | topResult # _ \<Rightarrow> score topResult),
                                                            resultsCount = length final\<rparr>, s2)))))))))"

section \<open>Notions used to state the properties of scoring\<close>

text \<open>
  The rungs of the type-match ladder as the source tests them, on the lower-cased and
  trimmed type fields; the related terms the synonym table gives for a query type; the
  query types that name an inherited member instead; and the mean price of a list of
  products.
\<close>

definition queryTypeOf :: "string \<Rightarrow> string" where
  "queryTypeOf t = trim (toLowerCase t)"

definition productTypeOf :: "Product \<Rightarrow> string" where
  "productTypeOf p = trim (toLowerCase (type p))"

definition exactTypeMatch :: "string \<Rightarrow> Product \<Rightarrow> bool" where
  "exactTypeMatch t p =
     (productTypeOf p = queryTypeOf t \<or> stripTrailingS (productTypeOf p) = queryTypeOf t
      \<or> productTypeOf p = stripTrailingS (queryTypeOf t))"

definition partialTypeMatch :: "string \<Rightarrow> Product \<Rightarrow> bool" where
  "partialTypeMatch t p =
     (includesStr (productTypeOf p) (queryTypeOf t) \<or> includesStr (queryTypeOf t) (productTypeOf p)
      \<or> includesStr (productTypeOf p) (stripTrailingS (queryTypeOf t))
      \<or> includesStr (stripTrailingS (queryTypeOf t)) (productTypeOf p))"

definition textTypeMatch :: "string \<Rightarrow> Product \<Rightarrow> bool" where
  "textTypeMatch t p =
     (includesStr (toLowerCase (title p)) (queryTypeOf t)
      \<or> includesStr (toLowerCase (title p)) (stripTrailingS (queryTypeOf t))
      \<or> includesStr (toLowerCase (description p)) (queryTypeOf t)
      \<or> includesStr (toLowerCase (description p)) (stripTrailingS (queryTypeOf t)))"

definition relatedTerms :: "string \<Rightarrow> string list option" where
  "relatedTerms t =
     (case map_of similarTypes (queryTypeOf t) of
        Some related \<Rightarrow> Some related
      | None \<Rightarrow> map_of similarTypes (stripTrailingS (queryTypeOf t)))"

definition synonymTypeMatch :: "string \<Rightarrow> Product \<Rightarrow> bool" where
  "synonymTypeMatch t p =
     (case relatedTerms t of
        Some related \<Rightarrow>
          list_ex (synonymOccurs (productTypeOf p) (toLowerCase (title p)) (toLowerCase (description p))) related
      | None \<Rightarrow> False)"

definition inheritedName :: "string \<Rightarrow> bool" where
  "inheritedName t =
     (queryTypeOf t \<in> set objectPrototypeKeys
      \<or> (map_of similarTypes (queryTypeOf t) = None \<and> stripTrailingS (queryTypeOf t) \<in> set objectPrototypeKeys))"

definition meanPrice :: "Product list \<Rightarrow> real" where
  "meanPrice products = sum_list (map price products) / real (length products)"

section \<open>Notions used to state the properties of the cache\<close>

text \<open>
  The successive batches the loop cuts a list into, whether a batch has any text to send,
  and whether every provider call logged between two states was answered with an
  embedding for each text it sent.
\<close>

function batches :: "'a list \<Rightarrow> 'a list list" where
  "batches xs = (if xs = [] then [] else take BATCH_SIZE xs # batches (drop BATCH_SIZE xs))"
  by pat_completeness auto
termination
  by (relation "measure length") (auto simp: BATCH_SIZE_def)

declare batches.simps [simp del]

definition hasValidText :: "Product list \<Rightarrow> bool" where
  "hasValidText batch = (validTexts (map embeddingText batch) \<noteq> [])"

definition answeredInFull :: "Backend \<Rightarrow> State \<Rightarrow> State \<Rightarrow> bool" where
  "answeredInFull backend s s' =
     list_all (\<lambda>n. case backend n (calls s' ! n) of
                      Inl err \<Rightarrow> False
                    | Inr embeddings \<Rightarrow>
                        length (callTexts (calls s' ! n)) \<le> length embeddings
                        \<and> list_all (\<lambda>item. embedding item \<noteq> None)
                             (take (length (callTexts (calls s' ! n))) embeddings))
       [length (calls s)..<length (calls s')]"

section \<open>Example inputs\<close>

text \<open>Concrete products, states and backends on which the theorems below are exercised.\<close>

definition blankProduct :: Product where
  "blankProduct = \<lparr>p_id = ''a'', title = '''', description = '''', category = '''', type = '''', price = 10\<rparr>"

definition oakBench :: Product where
  "oakBench = \<lparr>p_id = ''b'', title = ''Oak bench'', description = ''Solid oak'', category = ''seating'', type = ''bench'', price = 120\<rparr>"

definition emptyState :: State where
  "emptyState = \<lparr>productEmbeddingCache = Map.empty, calls = []\<rparr>"

definition unitBackend :: Backend where
  "unitBackend = (\<lambda>n call. Inr (map (\<lambda>t. \<lparr>embedding = Some [1]\<rparr>) (callTexts call)))"

definition onceBackend :: Backend where
  "onceBackend = (\<lambda>n call. if n = 0 then Inr (map (\<lambda>t. \<lparr>embedding = Some [1]\<rparr>) (callTexts call))
                              else Inr [])"

definition pineStool :: Product where
  "pineStool = \<lparr>p_id = ''c'', title = ''Pine stool'', description = ''Three legs'', category = ''seating'', type = ''stool'', price = 45\<rparr>"

definition spreadOut :: "Product list" where
  "spreadOut = oakBench # replicate 99 blankProduct @ [pineStool]"


definition tinyProduct :: Product where
  "tinyProduct = \<lparr>p_id = ''t'', title = ''t'', description = '''', category = '''', type = '''', price = 1\<rparr>"

definition scoredAt :: "string \<Rightarrow> real \<Rightarrow> ScoredProduct" where
  "scoredAt pid v = \<lparr>product = tinyProduct\<lparr>p_id := pid\<rparr>, score = v, explanation = []\<rparr>"

definition noKeys :: PartialSearchConfig where
  "noKeys = \<lparr>maxCandidatesKey = Absent, topKKey = Absent, minScoreKey = Absent,
     imageWeightKey = Absent, textWeightKey = Absent, priceProximityWeightKey = Absent,
     priceRangeEnabledKey = Absent, priceRangeMinKey = Absent, priceRangeMaxKey = Absent,
     aiProviderKey = Absent, aiModelKey = Absent, embeddingProviderKey = Absent,
     embeddingModelKey = Absent\<rparr>"

definition strictConfig :: SearchConfig where
  "strictConfig = mergeConfig (Some (noKeys\<lparr>topKKey := Own (Some 2), minScoreKey := Own (Some 0.5)\<rparr>))"

definition numbered :: "nat \<Rightarrow> Product" where
  "numbered n = tinyProduct\<lparr>p_id := replicate n (CHR ''i'')\<rparr>"

definition untypedAnalysis :: FurnitureAnalysis where
  "untypedAnalysis = \<lparr>isFurniture = True, analysisCategory = None, analysisType = None,
     analysisDescription = ''FURNITURE''\<rparr>"

definition stoolItem :: Product where
  "stoolItem = \<lparr>p_id = ''s'', title = ''Bar seat'', description = ''Tall'', category = ''seating'',
     type = ''stool'', price = 45\<rparr>"

definition chairItem :: Product where
  "chairItem = \<lparr>p_id = ''ch'', title = ''Dining chair'', description = ''Beech'', category = ''seating'',
     type = ''chair'', price = 80\<rparr>"

definition benchHeightStool :: Product where
  "benchHeightStool = \<lparr>p_id = ''bh'', title = ''Bench-height stool'', description = ''Steel'',
     category = ''seating'', type = ''stool'', price = 60\<rparr>"

definition storageBench :: Product where
  "storageBench = \<lparr>p_id = ''sb'', title = ''Hallway storage'', description = ''With lid'',
     category = ''storage'', type = ''storage bench'', price = 150\<rparr>"

definition gardenSeat :: Product where
  "gardenSeat = \<lparr>p_id = ''gs'', title = ''Garden bench'', description = ''Teak'',
     category = ''outdoor'', type = ''outdoor'', price = 210\<rparr>"

definition deskLamp :: Product where
  "deskLamp = \<lparr>p_id = ''dl'', title = ''Desk lamp'', description = ''Brass'',
     category = ''lighting'', type = ''lamp'', price = 35\<rparr>"

definition couchItem :: Product where
  "couchItem = \<lparr>p_id = ''co'', title = ''Three seater'', description = ''Grey fabric'',
     category = ''seating'', type = ''couch'', price = 640\<rparr>"

definition cheapNo :: "nat \<Rightarrow> Product" where
  "cheapNo n = \<lparr>p_id = replicate (Suc n) (CHR ''c''), title = ''side table'', description = ''pine'',
     category = ''tables'', type = ''table'', price = 100\<rparr>"

definition dearItem :: Product where
  "dearItem = \<lparr>p_id = ''dear'', title = ''marble table'', description = ''marble'',
     category = ''tables'', type = ''table'', price = 1200\<rparr>"

definition elevenProducts :: "Product list" where
  "elevenProducts = map cheapNo [0..<10] @ [dearItem]"

definition capTen :: SearchConfig where
  "capTen = defaultConfig\<lparr>maxCandidates := Some 10\<rparr>"

definition noPriceWeight :: SearchConfig where
  "noPriceWeight = defaultConfig\<lparr>priceProximityWeight := Some 0\<rparr>"

definition noImageWeight :: SearchConfig where
  "noImageWeight = defaultConfig\<lparr>imageWeight := Some 0, textWeight := Some 0\<rparr>"

definition staleState :: State where
  "staleState = \<lparr>productEmbeddingCache = [''old'' \<mapsto> [1, 2]], calls = []\<rparr>"

definition cachedBlankState :: State where
  "cachedBlankState = \<lparr>productEmbeddingCache = [''a'' \<mapsto> [9]], calls = []\<rparr>"

definition namesake :: Product where
  "namesake = blankProduct\<lparr>title := ''Oak bench''\<rparr>"

definition benchAnalysis :: FurnitureAnalysis where
  "benchAnalysis = \<lparr>isFurniture = True, analysisCategory = Some ''seating'', analysisType = Some ''bench'',
     analysisDescription = ''A wooden bench''\<rparr>"

definition anthropicInput :: PerformSearchInput where
  "anthropicInput = \<lparr>visionApiKey = ''vision-key'', embeddingApiKey = Some ''embedding-key'',
     imageBase64 = ''data:image/png;base64,AAAA'', queryText = None,
     config = Some (noKeys\<lparr>aiProviderKey := Own (Some ''anthropic''),
                           embeddingProviderKey := Own (Some ''anthropic'')\<rparr>)\<rparr>"

definition voyageInput :: PerformSearchInput where
  "voyageInput = \<lparr>visionApiKey = ''vision-key'', embeddingApiKey = Some ''embedding-key'',
     imageBase64 = ''data:image/png;base64,AAAA'', queryText = None,
     config = Some (noKeys\<lparr>embeddingProviderKey := Own (Some ''anthropic''),
                           embeddingModelKey := Own (Some ''voyage-3'')\<rparr>)\<rparr>"

definition silentBackend :: Backend where
  "silentBackend = (\<lambda>n call. Inr [])"

definition priceyNo :: "nat \<Rightarrow> Product" where
  "priceyNo n = tinyProduct\<lparr>p_id := replicate (Suc n) (CHR ''x''), price := 5000\<rparr>"

definition bigCatalog :: "Product list" where
  "bigCatalog = map priceyNo [0..<50] @ map numbered [0..<250]"

definition rangeInput :: PerformSearchInput where
  "rangeInput = \<lparr>visionApiKey = ''vision-key'', embeddingApiKey = None,
     imageBase64 = ''data:image/png;base64,AAAA'', queryText = None,
     config = Some (noKeys\<lparr>priceRangeEnabledKey := Own (Some True), priceRangeMinKey := Own (Some 0),
                           priceRangeMaxKey := Own (Some 100)\<rparr>)\<rparr>"

section \<open>Properties of \<^const>\<open>cosineSimilarityIn\<close>\<close>

subsection \<open>Rounding\<close>

lemma roundHalfEven_close: "\<bar>of_int (roundHalfEven x) - x\<bar> \<le> 1 / 2"
  unfolding roundHalfEven_def Let_def by (auto simp: abs_if) linarith+

lemma roundHalfEven_eqI: "\<bar>x - of_int k\<bar> < 1 / 2 \<Longrightarrow> roundHalfEven x = k"
proof -
  assume a: "\<bar>x - of_int k\<bar> < 1 / 2"
  have c: "\<bar>of_int (roundHalfEven x) - x\<bar> \<le> 1 / 2" by (rule roundHalfEven_close)
  from a c have "\<bar>(of_int (roundHalfEven x) :: real) - of_int k\<bar> < 1" by linarith
  then have "\<bar>of_int (roundHalfEven x - k) :: real\<bar> < 1" by simp
  then have "\<bar>roundHalfEven x - k\<bar> < 1"
    by (metis of_int_abs of_int_less_1_iff)
  then show ?thesis by linarith
qed

lemma floor_log2_eqI:
  assumes "2 powi e \<le> \<bar>x\<bar>" and "\<bar>x\<bar> < 2 powi (e + 1)"
  shows "\<lfloor>log 2 \<bar>x\<bar>\<rfloor> = e"
proof -
  have "(0::real) < 2 powi e" by (simp only: zero_less_power_int zero_less_numeral)
  with assms(1) have pos: "0 < \<bar>x\<bar>" by linarith
  have "(2::real) powr real_of_int e = 2 powi e" "(2::real) powr (real_of_int e + 1) = 2 powi (e + 1)"
    using powr_real_of_int' [of 2 e] powr_real_of_int' [of 2 "e + 1"] by simp_all
  with assms show ?thesis
    by (simp add: floor_log_eq_powr_iff [OF pos])
qed

lemma round64_eqI:
  assumes "2 powi e \<le> \<bar>x\<bar>" and "\<bar>x\<bar> < 2 powi (e + 1)" and "- 1022 \<le> e"
    and "\<bar>x / 2 powi (e - 52) - of_int k\<bar> < 1 / 2"
    and "\<bar>of_int k * 2 powi (e - 52)\<bar> < (2::real) powi 1024"
  shows "round64 x = Finite (of_int k * 2 powi (e - 52))"
proof -
  have "(0::real) < 2 powi e" by (simp only: zero_less_power_int zero_less_numeral)
  with assms(1) have "0 < \<bar>x\<bar>" by linarith
  then have nz: "x \<noteq> 0" by auto
  have e: "exponentOf x = e"
    unfolding exponentOf_def floor_log2_eqI [OF assms(1,2)] using assms(3) by simp
  have k: "roundHalfEven (x / 2 powi (e - 52)) = k"
    by (rule roundHalfEven_eqI [OF assms(4)])
  from assms(5) have "\<not> of_int k * 2 powi (e - 52) \<ge> (2::real) powi 1024"
    "\<not> of_int k * 2 powi (e - 52) \<le> - ((2::real) powi 1024)" by linarith+
  then show ?thesis
    unfolding round64_def Let_def e k using nz by simp
qed

lemma round64_relative:
  assumes "2 powi (- 1022) \<le> \<bar>x\<bar>" and "\<bar>x\<bar> \<le> 2 powi 1023"
  shows "\<exists>r. round64 x = Finite r \<and> \<bar>r - x\<bar> \<le> \<bar>x\<bar> / 2 ^ 53"
proof -
  have "(0::real) < 2 powi (- 1022)" by (simp only: zero_less_power_int zero_less_numeral)
  with assms(1) have pos: "0 < \<bar>x\<bar>" by linarith
  then have nz: "x \<noteq> 0" by auto
  define e where "e = \<lfloor>log 2 \<bar>x\<bar>\<rfloor>"
  have pw: "\<And>n. (2::real) powr real_of_int n = 2 powi n"
    using powr_real_of_int' [of 2] by simp
  have "(2::real) powr real_of_int e \<le> \<bar>x\<bar> \<and> \<bar>x\<bar> < 2 powr (real_of_int e + 1)"
    using floor_log_eq_powr_iff [OF pos, of 2 e] by (simp add: e_def)
  then have lo: "2 powi e \<le> \<bar>x\<bar>" and hi: "\<bar>x\<bar> < 2 powi (e + 1)"
    using pw [of e] pw [of "e + 1"] by simp_all
  have e1: "- 1022 \<le> e"
  proof (rule ccontr)
    assume "\<not> - 1022 \<le> e"
    then have "e + 1 \<le> - 1022" by simp
    then have "(2::real) powi (e + 1) \<le> 2 powi (- 1022)"
      by (intro power_int_increasing) simp_all
    with hi assms(1) show False by linarith
  qed
  have e2: "e \<le> 1023"
  proof (rule ccontr)
    assume "\<not> e \<le> 1023"
    then have "1024 \<le> e" by simp
    then have "(2::real) powi 1024 \<le> 2 powi e"
      by (intro power_int_increasing) simp_all
    moreover have "(2::real) powi 1023 < 2 powi 1024"
      by (intro power_int_strict_increasing) simp_all
    ultimately show False using lo assms(2) by linarith
  qed
  have ex: "exponentOf x = e"
    unfolding exponentOf_def e_def [symmetric] using e1 by simp
  define q where "q = (2::real) powi (e - 52)"
  define k where "k = roundHalfEven (x / q)"
  have qpos: "0 < q" by (simp add: q_def zero_less_power_int)
  have close: "\<bar>of_int k - x / q\<bar> \<le> 1 / 2"
    unfolding k_def by (rule roundHalfEven_close)
  have "\<bar>of_int k * q - x\<bar> = \<bar>of_int k - x / q\<bar> * q"
    using qpos by (simp add: abs_mult [symmetric] field_simps)
  with close qpos have err: "\<bar>of_int k * q - x\<bar> \<le> q / 2"
    by (simp add: mult_right_mono)
  have q2: "q = 2 powi e / 2 ^ 52"
    unfolding q_def by (simp add: power_int_diff)
  then have half: "q / 2 = 2 powi e / 2 ^ 53" by simp
  with lo have bound: "q / 2 \<le> \<bar>x\<bar> / 2 ^ 53"
    by (simp add: divide_right_mono)
  have "2 powi e \<le> (2::real) powi 1023"
    using e2 by (intro power_int_increasing) simp_all
  then have "q / 2 \<le> 2 powi 1023 / 2 ^ 53"
    unfolding half by (simp add: divide_right_mono)
  also have "\<dots> < 2 powi 1023" by simp
  finally have qsmall: "q / 2 < 2 powi 1023" .
  have "\<bar>of_int k * q\<bar> \<le> \<bar>x\<bar> + q / 2" using err by linarith
  also have "\<dots> < 2 powi 1023 + 2 powi 1023" using assms(2) qsmall by linarith
  also have "\<dots> = 2 powi 1024" by simp
  finally have fin: "\<bar>of_int k * q\<bar> < 2 powi 1024" .
  then have "\<not> of_int k * q \<ge> (2::real) powi 1024" "\<not> of_int k * q \<le> - ((2::real) powi 1024)"
    by linarith+
  then have "round64 x = Finite (of_int k * q)"
    unfolding round64_def Let_def ex q_def [symmetric] k_def [symmetric] using nz by simp
  with err bound show ?thesis by force
qed

lemma cosineLoop_foldl:
  "cosineLoop ar a b (d, na, nb) =
     (foldl (\<lambda>acc (x, y). opAdd ar acc (opMul ar x y)) d (zip a b),
      foldl (\<lambda>acc x. opAdd ar acc (opMul ar x x)) na (take (length b) a),
      foldl (\<lambda>acc x. opAdd ar acc (opMul ar x x)) nb (take (length a) b))"
proof (induction a arbitrary: b d na nb)
  case Nil
  then show ?case by simp
next
  case (Cons va as)
  then show ?case by (cases b) simp_all
qed

lemma zip_take_overlap: "zip (take (overlap a b) a) (take (overlap a b) b) = zip a b"
  by (simp add: overlap_def take_zip [symmetric])

lemma cosineSimilarityIn_prefix:
  "cosineSimilarityIn ar a b =
     (if overlap a b = 0 \<or> opFalsy ar (squaresOver ar (take (overlap a b) a))
         \<or> opFalsy ar (squaresOver ar (take (overlap a b) b))
      then opZero ar
      else opDiv ar (dotOver ar (take (overlap a b) a) (take (overlap a b) b))
             (opMul ar (opSqrt ar (squaresOver ar (take (overlap a b) a)))
                       (opSqrt ar (squaresOver ar (take (overlap a b) b)))))"
proof -
  have a: "take (overlap a b) a = take (length b) a" and b: "take (overlap a b) b = take (length a) b"
    by (simp_all add: overlap_def min_def)
  show ?thesis
    unfolding cosineSimilarityIn_def cosineLoop_foldl dotOver_def squaresOver_def zip_take_overlap
    unfolding a b by (cases a; cases b) (simp_all add: overlap_def Let_def)
qed

lemma round64_exact:
  assumes "2 powi e \<le> \<bar>x\<bar>" and "\<bar>x\<bar> < 2 powi (e + 1)" and "- 1022 \<le> e" and "e \<le> 1023"
    and "x = of_int k * 2 powi (e - 52)"
  shows "round64 x = Finite x"
proof -
  have "x / 2 powi (e - 52) = of_int k"
    unfolding assms(5) by simp
  then have c: "\<bar>x / 2 powi (e - 52) - of_int k\<bar> < 1 / 2" by simp
  have "(2::real) powi (e + 1) \<le> 2 powi 1024"
    using assms(4) by (intro power_int_increasing) simp_all
  with assms(2) have "\<bar>of_int k * 2 powi (e - 52)\<bar> < (2::real) powi 1024"
    unfolding assms(5) [symmetric] by linarith
  from round64_eqI [OF assms(1,2,3) c this] show ?thesis
    unfolding assms(5) [symmetric] .
qed

lemma round64_0: "round64 0 = Finite 0"
  by (simp add: round64_def)

lemma round64_1: "round64 1 = Finite 1"
  by (rule round64_exact [of 0 1 4503599627370496]) simp_all

lemma round64_2: "round64 2 = Finite 2"
  by (rule round64_exact [of 1 2 4503599627370496]) simp_all

lemma sqrt2_bounds:
  "12738103345051545 / 9007199254740992 < sqrt 2" "sqrt 2 < 12738103345051547 / 9007199254740992"
  by (rule real_less_rsqrt, simp add: power2_eq_square) (rule real_less_lsqrt, simp_all add: power2_eq_square)

lemma round64_sqrt2: "round64 (sqrt 2) = Finite (6369051672525773 / 4503599627370496)"
proof -
  have lo: "2 powi 0 \<le> \<bar>sqrt 2\<bar>" by simp
  have hi: "\<bar>sqrt 2\<bar> < 2 powi (0 + 1)"
    using sqrt2_bounds(2) by simp
  have c: "\<bar>sqrt 2 / 2 powi (0 - 52) - of_int 6369051672525773\<bar> < 1 / 2"
    using sqrt2_bounds by (simp add: abs_if field_simps)
  have f: "\<bar>of_int 6369051672525773 * 2 powi (0 - 52)\<bar> < (2::real) powi 1024"
  proof -
    have "\<bar>of_int 6369051672525773 * 2 powi (0 - 52)\<bar> < (2::real) powi 1" by simp
    also have "\<dots> \<le> 2 powi 1024" by (intro power_int_increasing) simp_all
    finally show ?thesis .
  qed
  from round64_eqI [OF lo hi _ c f] show ?thesis by simp
qed

lemma small_finite:
  fixes r :: real
  assumes "\<bar>r\<bar> < 4"
  shows "\<bar>r\<bar> < 2 powi 1024"
proof -
  have "(2::real) powi 2 \<le> 2 powi 1024" by (intro power_int_increasing) simp_all
  with assms show ?thesis by simp
qed

lemma round64_sqrt2_squared:
  "round64 (6369051672525773 / 4503599627370496 * (6369051672525773 / 4503599627370496))
     = Finite (4503599627370497 / 2251799813685248)"
proof -
  let ?x = "6369051672525773 / 4503599627370496 * (6369051672525773 / 4503599627370496) :: real"
  have lo: "2 powi 1 \<le> \<bar>?x\<bar>" by simp
  have hi: "\<bar>?x\<bar> < 2 powi (1 + 1)" by simp
  have c: "\<bar>?x / 2 powi (1 - 52) - of_int 4503599627370497\<bar> < 1 / 2" by simp
  have f: "\<bar>of_int 4503599627370497 * 2 powi (1 - 52)\<bar> < (2::real) powi 1024"
    by (rule small_finite) simp
  from round64_eqI [OF lo hi _ c f] show ?thesis by simp
qed

lemma round64_quotient:
  "round64 (2 / (4503599627370497 / 2251799813685248))
     = Finite (9007199254740990 / 9007199254740992)"
proof -
  let ?x = "2 / (4503599627370497 / 2251799813685248) :: real"
  have lo: "2 powi (- 1) \<le> \<bar>?x\<bar>" by simp
  have hi: "\<bar>?x\<bar> < 2 powi (- 1 + 1)" by simp
  have c: "\<bar>?x / 2 powi (- 1 - 52) - of_int 9007199254740990\<bar> < 1 / 2" by simp
  have f: "\<bar>of_int 9007199254740990 * 2 powi (- 1 - 52)\<bar> < (2::real) powi 1024"
    by (rule small_finite) simp
  from round64_eqI [OF lo hi _ c f] show ?thesis by simp
qed

lemma round64_tiny:
  assumes "\<bar>x\<bar> < 2 powi (- 1075)"
  shows "round64 x = Finite 0"
proof (cases "x = 0")
  case True
  then show ?thesis by (simp add: round64_0)
next
  case False
  then have pos: "0 < \<bar>x\<bar>" by simp
  have "(2::real) powi (- 1075) = 2 powr (- 1075)"
    using powr_real_of_int' [of 2 "- 1075"] by simp
  with assms have "log 2 \<bar>x\<bar> < - 1075"
    using log_less_iff [of 2 "\<bar>x\<bar>" "- 1075"] pos by simp
  then have "\<lfloor>log 2 \<bar>x\<bar>\<rfloor> \<le> - 1022" by linarith
  then have e: "exponentOf x = - 1022" by (simp add: exponentOf_def)
  have "\<bar>x / 2 powi (- 1074)\<bar> = \<bar>x\<bar> / 2 powi (- 1074)" by (simp add: abs_divide power_int_abs)
  also have "\<dots> < 2 powi (- 1075) / 2 powi (- 1074)"
    using assms by (intro divide_strict_right_mono) (simp_all add: zero_less_power_int)
  also have "\<dots> = (2::real) powi (- 1075 - (- 1074))" by (subst power_int_diff) simp_all
  also have "\<dots> = 1 / 2" by simp
  finally have "\<bar>x / 2 powi (- 1074) - of_int 0\<bar> < 1 / 2" by simp
  then have k: "roundHalfEven (x / 2 powi (- 1074)) = 0" by (rule roundHalfEven_eqI)
  have z: "\<not> (0::real) \<ge> 2 powi 1024" "\<not> (0::real) \<le> - (2 powi 1024)"
    by (simp_all add: not_le zero_less_power_int)
  show ?thesis
    unfolding round64_def Let_def e using False k z by simp
qed

lemma round64_huge:
  assumes "2 powi 1024 \<le> x"
  shows "round64 x = PosInf"
proof -
  have "(0::real) < 2 powi 1024" by (simp only: zero_less_power_int zero_less_numeral)
  with assms have xp: "0 < x" by linarith
  then have pos: "0 < \<bar>x\<bar>" and ax: "\<bar>x\<bar> = x" by simp_all
  define e where "e = \<lfloor>log 2 \<bar>x\<bar>\<rfloor>"
  have pw: "\<And>n. (2::real) powr real_of_int n = 2 powi n"
    using powr_real_of_int' [of 2] by simp
  have "(2::real) powr real_of_int e \<le> \<bar>x\<bar> \<and> \<bar>x\<bar> < 2 powr (real_of_int e + 1)"
    using floor_log_eq_powr_iff [OF pos, of 2 e] by (simp add: e_def)
  then have lo: "2 powi e \<le> x" and hi: "x < 2 powi (e + 1)"
    using pw [of e] pw [of "e + 1"] ax by simp_all
  have e1: "1024 \<le> e"
  proof (rule ccontr)
    assume "\<not> 1024 \<le> e"
    then have "e + 1 \<le> 1024" by simp
    then have "(2::real) powi (e + 1) \<le> 2 powi 1024"
      by (intro power_int_increasing) simp_all
    with hi assms show False by linarith
  qed
  then have ex: "exponentOf x = e"
    unfolding exponentOf_def e_def [symmetric] by simp
  define q where "q = (2::real) powi (e - 52)"
  have qpos: "0 < q" by (simp add: q_def zero_less_power_int)
  have "2 powi e = 2 ^ 52 * q"
    unfolding q_def by (simp add: power_int_diff)
  with lo qpos have "(2::real) ^ 52 \<le> x / q" by (simp add: field_simps)
  then have "real_of_int (2 ^ 52) \<le> x / q" by simp
  then have "2 ^ 52 \<le> \<lfloor>x / q\<rfloor>" by (simp only: le_floor_iff)
  moreover have "\<lfloor>x / q\<rfloor> \<le> roundHalfEven (x / q)"
    by (simp add: roundHalfEven_def Let_def)
  ultimately have "2 ^ 52 \<le> roundHalfEven (x / q)" by linarith
  then have "(2::real) ^ 52 \<le> of_int (roundHalfEven (x / q))"
    by (metis of_int_le_iff of_int_numeral of_int_power)
  then have "2 ^ 52 * q \<le> of_int (roundHalfEven (x / q)) * q"
    using qpos by (simp add: mult_right_mono)
  moreover have "(2::real) powi 1024 \<le> 2 powi e"
    using e1 by (intro power_int_increasing) simp_all
  ultimately have "2 powi 1024 \<le> of_int (roundHalfEven (x / q)) * q"
    using \<open>2 powi e = 2 ^ 52 * q\<close> by linarith
  then show ?thesis
    unfolding round64_def Let_def ex q_def [symmetric] using xp by simp
qed

lemma binary64_steps:
  "fmul (Finite 1) (Finite 1) = Finite 1"
  "fadd (Finite 0) (Finite 1) = Finite 1"
  "fadd (Finite 1) (Finite 1) = Finite 2"
  "fsqrt (Finite 2) = Finite (6369051672525773 / 4503599627370496)"
  "fmul (Finite (6369051672525773 / 4503599627370496)) (Finite (6369051672525773 / 4503599627370496))
     = Finite (4503599627370497 / 2251799813685248)"
  "fdiv (Finite 2) (Finite (4503599627370497 / 2251799813685248))
     = Finite (4503599627370495 / 4503599627370496)"
proof -
  show "fmul (Finite 1) (Finite 1) = Finite 1" by (simp add: round64_1)
  show "fadd (Finite 0) (Finite 1) = Finite 1" by (simp add: round64_1)
  show "fadd (Finite 1) (Finite 1) = Finite 2" by (simp add: round64_2)
  show "fsqrt (Finite 2) = Finite (6369051672525773 / 4503599627370496)"
    by (simp add: round64_sqrt2)
  show "fmul (Finite (6369051672525773 / 4503599627370496)) (Finite (6369051672525773 / 4503599627370496))
     = Finite (4503599627370497 / 2251799813685248)"
    unfolding fmul.simps by (rule round64_sqrt2_squared)
  have nz: "(4503599627370497 / 2251799813685248 :: real) \<noteq> 0" by simp
  have "fdiv (Finite 2) (Finite (4503599627370497 / 2251799813685248))
     = round64 (2 / (4503599627370497 / 2251799813685248))"
    unfolding fdiv.simps using nz by (simp only: if_False)
  also have "\<dots> = Finite (9007199254740990 / 9007199254740992)"
    by (rule round64_quotient)
  finally show "fdiv (Finite 2) (Finite (4503599627370497 / 2251799813685248))
     = Finite (4503599627370495 / 4503599627370496)" by simp
qed

lemma cosineSimilarity64_examples:
  "cosineSimilarityIn binary64 [Finite 1, Finite 1] [Finite 1, Finite 1]
     = Finite (4503599627370495 / 4503599627370496)
   \<and> cosineSimilarityIn binary64 [Finite (2 powi (- 600))] [Finite (2 powi (- 600))] = Finite 0
   \<and> cosineSimilarityIn binary64 [Finite (2 powi 600)] [Finite (2 powi 600)] = NaN"
proof (intro conjI)
  show "cosineSimilarityIn binary64 [Finite 1, Finite 1] [Finite 1, Finite 1]
     = Finite (4503599627370495 / 4503599627370496)"
    by (simp add: cosineSimilarityIn_def binary64_def binary64_steps
          del: fadd.simps fmul.simps fdiv.simps fsqrt.simps)
  have "(2::real) powi (- 600) * 2 powi (- 600) = 2 powi (- 1200)"
    by (subst power_int_add [symmetric]) simp_all
  moreover have "\<bar>(2::real) powi (- 1200)\<bar> < 2 powi (- 1075)"
  proof -
    have "(2::real) powi (- 1200) < 2 powi (- 1075)"
      by (intro power_int_strict_increasing) simp_all
    moreover have "\<bar>(2::real) powi (- 1200)\<bar> = 2 powi (- 1200)"
      by (simp only: power_int_abs abs_numeral)
    ultimately show ?thesis by (simp only:)
  qed
  ultimately have tiny: "fmul (Finite (2 powi (- 600))) (Finite (2 powi (- 600))) = Finite 0"
    using round64_tiny [of "2 powi (- 1200)"] by (simp only: fmul.simps)
  have z: "fadd (Finite 0) (Finite 0) = Finite 0" by (simp add: round64_0)
  show "cosineSimilarityIn binary64 [Finite (2 powi (- 600))] [Finite (2 powi (- 600))] = Finite 0"
    by (simp add: cosineSimilarityIn_def binary64_def tiny z
          del: fadd.simps fmul.simps fdiv.simps fsqrt.simps power_int_numeral_neg_numeral)
  have "(2::real) powi 600 * 2 powi 600 = 2 powi 1200"
    by (subst power_int_add [symmetric]) simp_all
  moreover have "(2::real) powi 1024 \<le> 2 powi 1200"
    by (intro power_int_increasing) simp_all
  ultimately have huge: "fmul (Finite (2 powi 600)) (Finite (2 powi 600)) = PosInf"
    using round64_huge [of "2 powi 1200"] by (simp only: fmul.simps)
  show "cosineSimilarityIn binary64 [Finite (2 powi 600)] [Finite (2 powi 600)] = NaN"
    by (simp add: cosineSimilarityIn_def binary64_def huge del: fmul.simps(1) power_int_numeral)
qed

lemma foldl_dot_exact:
  "foldl (\<lambda>acc (x, y). acc + x * y) d (zip a b)
     = d + (\<Sum>i < min (length a) (length b). a ! i * (b ! i :: real))"
proof (induction a arbitrary: b d)
  case Nil
  then show ?case by simp
next
  case (Cons va as)
  show ?case
  proof (cases b)
    case Nil
    then show ?thesis by simp
  next
    case (Cons vb bs)
    have shift: "\<And>f :: nat \<Rightarrow> real. (\<Sum>i < Suc (min (length as) (length bs)). f i)
        = f 0 + (\<Sum>i < min (length as) (length bs). f (Suc i))"
      by (rule sum.lessThan_Suc_shift)
    show ?thesis
      unfolding Cons by (simp add: Cons.IH shift add.assoc del: sum.lessThan_Suc)
  qed
qed

lemma foldl_squares_exact:
  "foldl (\<lambda>acc x. acc + x * x) d xs = d + (\<Sum>i < length xs. xs ! i * (xs ! i :: real))"
proof (induction xs arbitrary: d)
  case Nil
  then show ?case by simp
next
  case (Cons x xs)
  have shift: "\<And>f :: nat \<Rightarrow> real. (\<Sum>i < Suc (length xs). f i) = f 0 + (\<Sum>i < length xs. f (Suc i))"
    by (rule sum.lessThan_Suc_shift)
  show ?case
    by (simp add: Cons.IH shift add.assoc del: sum.lessThan_Suc)
qed

lemma sum_squares_zero_iff:
  "(\<Sum>i < n. (a::real list) ! i * a ! i) = 0 \<longleftrightarrow> (\<forall>i < n. a ! i = 0)"
proof -
  have "(\<Sum>i \<in> {..<n}. a ! i * a ! i) = 0 \<longleftrightarrow> (\<forall>i \<in> {..<n}. a ! i * a ! i = 0)"
    by (rule sum_nonneg_eq_0_iff) simp_all
  then show ?thesis by auto
qed

lemma squaresOver_exact:
  "n \<le> length a \<Longrightarrow> squaresOver exactArithmetic (take n a) = (\<Sum>i < n. a ! i * a ! i)"
  by (simp add: squaresOver_def exactArithmetic_def foldl_squares_exact min_def)

lemma dotOver_exact:
  "dotOver exactArithmetic (take (overlap a b) a) (take (overlap a b) b) = dotPrefix a b"
  by (simp add: dotOver_def exactArithmetic_def foldl_dot_exact dotPrefix_def overlap_def)

lemma cosineSimilarity_prefix:
  "cosineSimilarity a b =
     (if overlap a b = 0 \<or> magPrefix (overlap a b) a = 0 \<or> magPrefix (overlap a b) b = 0
      then 0
      else dotPrefix a b / (magPrefix (overlap a b) a * magPrefix (overlap a b) b))"
proof -
  have a: "squaresOver exactArithmetic (take (overlap a b) a) = (\<Sum>i < overlap a b. a ! i * a ! i)"
    by (rule squaresOver_exact) (simp add: overlap_def)
  have b: "squaresOver exactArithmetic (take (overlap a b) b) = (\<Sum>i < overlap a b. b ! i * b ! i)"
    by (rule squaresOver_exact) (simp add: overlap_def)
  show ?thesis
    unfolding cosineSimilarity_def cosineSimilarityIn_prefix a b dotOver_exact
    by (simp add: exactArithmetic_def magPrefix_def)
qed

lemma cosineSimilarity_self:
  assumes "\<exists>x \<in> set a. x \<noteq> 0"
  shows "cosineSimilarity a a = 1"
proof -
  let ?s = "\<Sum>i < length a. a ! i * a ! i"
  from assms obtain i where i: "i < length a" "a ! i \<noteq> 0"
    by (auto simp: in_set_conv_nth)
  then have nz: "?s \<noteq> 0"
    using sum_squares_zero_iff [where n = "length a" and a = a] by blast
  have nonneg: "0 \<le> ?s"
    by (rule sum_nonneg) simp
  have len: "length a \<noteq> 0" using i by auto
  have "sqrt ?s * sqrt ?s = ?s"
    using nonneg by simp
  then show ?thesis
    using nz len by (simp add: cosineSimilarity_prefix overlap_def magPrefix_def dotPrefix_def)
qed

lemma squaresOver_zero:
  "\<forall>x \<in> set xs. x = Finite 0 \<Longrightarrow> squaresOver binary64 xs = Finite 0"
proof -
  have "\<forall>x \<in> set xs. x = Finite 0 \<Longrightarrow>
      foldl (\<lambda>acc x. fadd acc (fmul x x)) (Finite 0) xs = Finite 0"
    by (induction xs) (simp_all add: round64_0)
  then show "\<forall>x \<in> set xs. x = Finite 0 \<Longrightarrow> squaresOver binary64 xs = Finite 0"
    by (simp add: squaresOver_def binary64_def)
qed

lemma dotOver_self: "dotOver ar a a = squaresOver ar a"
proof -
  have "foldl (\<lambda>acc (x, y). opAdd ar acc (opMul ar x y)) d (zip a a)
      = foldl (\<lambda>acc x. opAdd ar acc (opMul ar x x)) d a" for d
    by (induction a arbitrary: d) simp_all
  then show ?thesis by (simp add: dotOver_def squaresOver_def)
qed

lemma cosineSimilarityIn_self:
  "cosineSimilarityIn ar a a =
     (if a = [] \<or> opFalsy ar (squaresOver ar a) then opZero ar
      else opDiv ar (squaresOver ar a)
             (opMul ar (opSqrt ar (squaresOver ar a)) (opSqrt ar (squaresOver ar a))))"
  unfolding cosineSimilarityIn_prefix by (simp add: overlap_def dotOver_self)

lemma orthogonal64:
  "cosineSimilarityIn binary64 [Finite 1, Finite 0] [Finite 0, Finite 1] = Finite 0"
  by (simp add: cosineSimilarityIn_def binary64_def round64_0 round64_1)

lemma relative_bounds:
  fixes r x :: real
  assumes "\<bar>r - x\<bar> \<le> \<bar>x\<bar> / 2 ^ 53" and "0 < x"
  shows "(1 - 1 / 2 ^ 53) * x \<le> r" and "r \<le> (1 + 1 / 2 ^ 53) * x"
  using assms by (simp_all add: abs_if algebra_simps split: if_splits)

lemma self_similarity_bound:
  assumes lo: "2 powi (- 1021) \<le> n" and hi: "n \<le> 2 powi 1022"
  shows "\<exists>q. fdiv (Finite n) (fmul (fsqrt (Finite n)) (fsqrt (Finite n))) = Finite q
     \<and> \<bar>q - 1\<bar> \<le> 1 / 2 ^ 50"
proof -
  define c d :: real where "c = 1 - 1 / 2 ^ 53" and "d = 1 + 1 / 2 ^ 53"
  have c: "0 < c" "1 / 2 \<le> c * c" "1 / 2 \<le> c * c * c" "0 < c * c * c"
    and d: "0 < d" "d * d \<le> 2" "d * d * d \<le> 2" "0 < d * d * d"
    and num: "1 - 1 / 2 ^ 50 \<le> c / (d * d * d)" "d / (c * c * c) \<le> 1 + 1 / 2 ^ 50"
    by (simp_all add: c_def d_def)
  define tlo thi :: real where "tlo = 2 powi (- 1022)" and "thi = 2 powi 1023"
  have "(2::real) powi (- 1021) = 2 * 2 powi (- 1022)"
    using power_int_add_1' [of 2 "- 1022"] by simp
  with lo have lo': "2 * tlo \<le> n" by (simp only: tlo_def)
  have "(2::real) powi 1023 = 2 * 2 powi 1022"
    using power_int_add_1' [of 2 1022] by simp
  with hi have hi': "2 * n \<le> thi" by (simp only: thi_def mult_left_mono zero_le_numeral)
  have tpos: "0 < tlo" by (simp only: tlo_def zero_less_power_int zero_less_numeral)
  have thalf: "tlo \<le> 1 / 2"
  proof -
    have "(2::real) powi (- 1022) \<le> 2 powi (- 1)" by (intro power_int_increasing) simp_all
    then show ?thesis by (simp add: tlo_def del: power_int_numeral_neg_numeral power_int_minus)
  qed
  have ttwo: "2 \<le> thi"
  proof -
    have "(2::real) powi 1 \<le> 2 powi 1023" by (intro power_int_increasing) simp_all
    then show ?thesis by (simp add: thi_def del: power_int_numeral)
  qed
  have npos: "0 < n" using lo' tpos by linarith
  define r where "r = sqrt n"
  have rr: "r * r = n" and rpos: "0 < r" using npos by (simp_all add: r_def)
  have ar: "\<bar>r\<bar> = r" using rpos by simp
  have "(2 powi (- 1022))\<^sup>2 = (2::real) powi (- 1022) * 2 powi (- 1022)" by (simp only: power2_eq_square)
  also have "\<dots> = 2 powi (- 2044)" by (subst power_int_add [symmetric]) simp_all
  also have "\<dots> \<le> 2 powi (- 1021)" by (intro power_int_increasing) simp_all
  finally have "(2 powi (- 1022))\<^sup>2 \<le> n" using lo by linarith
  then have "2 powi (- 1022) \<le> r"
    unfolding r_def by (rule real_le_rsqrt)
  with ar have rlo: "2 powi (- 1022) \<le> \<bar>r\<bar>" by (simp only:)
  have "(2::real) powi 1022 \<le> 2 powi 2046" by (intro power_int_increasing) simp_all
  also have "\<dots> = (2::real) powi 1023 * 2 powi 1023" by (subst power_int_add [symmetric]) simp_all
  also have "\<dots> = (2 powi 1023)\<^sup>2" by (simp only: power2_eq_square)
  finally have "n \<le> (2 powi 1023)\<^sup>2" using hi by linarith
  moreover have "0 \<le> (2::real) powi 1023" by (simp only: zero_le_power_int zero_le_numeral)
  ultimately have "r \<le> 2 powi 1023"
    unfolding r_def by (intro real_le_lsqrt)
  with ar have rhi: "\<bar>r\<bar> \<le> 2 powi 1023" by (simp only:)
  from round64_relative [OF rlo rhi] obtain s
    where s: "round64 r = Finite s" and serr: "\<bar>s - r\<bar> \<le> \<bar>r\<bar> / 2 ^ 53" by blast
  from relative_bounds [OF serr rpos] have sb: "c * r \<le> s" "s \<le> d * r"
    by (simp_all only: c_def d_def)
  have "0 < c * r" using c(1) rpos by (rule mult_pos_pos)
  with sb(1) have spos: "0 < s" by linarith
  have sqrt_n: "fsqrt (Finite n) = Finite s"
    using npos s by (simp add: r_def)
  have "(c * r) * (c * r) \<le> s * s"
    using sb(1) c(1) rpos spos by (intro mult_mono) simp_all
  moreover have "(c * r) * (c * r) = c * c * n"
    using rr by (simp add: algebra_simps)
  ultimately have sslo: "c * c * n \<le> s * s" by (simp only:)
  have "s * s \<le> (d * r) * (d * r)"
    using sb(2) spos by (intro mult_mono) simp_all
  moreover have "(d * r) * (d * r) = d * d * n"
    using rr by (simp add: algebra_simps)
  ultimately have sshi: "s * s \<le> d * d * n" by (simp only:)
  have sspos: "0 < s * s" using spos by simp
  then have ass: "\<bar>s * s\<bar> = s * s" by simp
  have "1 / 2 * n \<le> c * c * n" using c(2) npos by (intro mult_right_mono) simp_all
  with sslo lo' have "tlo \<le> s * s" by linarith
  then have sqlo: "2 powi (- 1022) \<le> \<bar>s * s\<bar>" by (simp only: ass tlo_def)
  have "d * d * n \<le> 2 * n" using d(2) npos by (intro mult_right_mono) simp_all
  with sshi hi' have "s * s \<le> thi" by linarith
  then have sqhi: "\<bar>s * s\<bar> \<le> 2 powi 1023" by (simp only: ass thi_def)
  from round64_relative [OF sqlo sqhi] obtain p
    where p: "round64 (s * s) = Finite p" and perr: "\<bar>p - s * s\<bar> \<le> \<bar>s * s\<bar> / 2 ^ 53" by blast
  from relative_bounds [OF perr sspos] have pb: "c * (s * s) \<le> p" "p \<le> d * (s * s)"
    by (simp_all only: c_def d_def)
  have "c * (c * c * n) \<le> c * (s * s)" using sslo c(1) by (intro mult_left_mono) simp_all
  moreover have "c * (c * c * n) = c * c * c * n" by (simp add: algebra_simps)
  ultimately have plo: "c * c * c * n \<le> p" using pb(1) by linarith
  have "d * (s * s) \<le> d * (d * d * n)" using sshi d(1) by (intro mult_left_mono) simp_all
  moreover have "d * (d * d * n) = d * d * d * n" by (simp add: algebra_simps)
  ultimately have phi: "p \<le> d * d * d * n" using pb(2) by linarith
  have cn: "0 < c * c * c * n" using c(4) npos by (rule mult_pos_pos)
  with plo have ppos: "0 < p" by linarith
  have dn: "0 < d * d * d * n" using d(4) npos by (rule mult_pos_pos)
  have prod: "fmul (fsqrt (Finite n)) (fsqrt (Finite n)) = Finite p"
    unfolding sqrt_n by (simp add: p)
  have "n / p \<le> n / (c * c * c * n)"
  proof (rule divide_left_mono [OF plo])
    show "0 \<le> n" using npos by simp
    show "0 < p * (c * c * c * n)" using ppos cn by (rule mult_pos_pos)
  qed
  moreover have "n / (c * c * c * n) = 1 / (c * c * c)" using npos by simp
  ultimately have qhi: "n / p \<le> 1 / (c * c * c)" by (simp only:)
  have "n / (d * d * d * n) \<le> n / p"
  proof (rule divide_left_mono [OF phi])
    show "0 \<le> n" using npos by simp
    show "0 < d * d * d * n * p" using dn ppos by (rule mult_pos_pos)
  qed
  moreover have "n / (d * d * d * n) = 1 / (d * d * d)" using npos by simp
  ultimately have qlo: "1 / (d * d * d) \<le> n / p" by (simp only:)
  have npp: "0 < n / p" using npos ppos by simp
  then have anp: "\<bar>n / p\<bar> = n / p" by (rule abs_of_pos)
  have "1 / 2 \<le> 1 / (d * d * d)" using d(3,4) by (simp add: field_simps)
  with qlo thalf have "tlo \<le> n / p" by linarith
  then have dlo: "2 powi (- 1022) \<le> \<bar>n / p\<bar>" by (simp only: anp tlo_def)
  have "1 / (c * c * c) \<le> 2" using c(3,4) by (simp add: field_simps)
  with qhi ttwo have "n / p \<le> thi" by linarith
  then have dhi: "\<bar>n / p\<bar> \<le> 2 powi 1023" by (simp only: anp thi_def)
  from round64_relative [OF dlo dhi] obtain q
    where q: "round64 (n / p) = Finite q" and qerr: "\<bar>q - n / p\<bar> \<le> \<bar>n / p\<bar> / 2 ^ 53" by blast
  from relative_bounds [OF qerr npp] have qb: "c * (n / p) \<le> q" "q \<le> d * (n / p)"
    by (simp_all only: c_def d_def)
  have "c * (1 / (d * d * d)) \<le> c * (n / p)" using qlo c(1) by (intro mult_left_mono) simp_all
  moreover have "c * (1 / (d * d * d)) = c / (d * d * d)" by simp
  ultimately have l: "1 - 1 / 2 ^ 50 \<le> q" using qb(1) num(1) by linarith
  have "d * (n / p) \<le> d * (1 / (c * c * c))" using qhi d(1) by (intro mult_left_mono) simp_all
  moreover have "d * (1 / (c * c * c)) = d / (c * c * c)" by simp
  ultimately have h: "q \<le> 1 + 1 / 2 ^ 50" using qb(2) num(2) by linarith
  have "fdiv (Finite n) (fmul (fsqrt (Finite n)) (fsqrt (Finite n))) = Finite q"
    unfolding prod using ppos q by simp
  moreover from l h have "\<bar>q - 1\<bar> \<le> 1 / 2 ^ 50" by (simp add: abs_if)
  ultimately show ?thesis by blast
qed

lemma cosineSimilarityIn_take:
  "cosineSimilarityIn ar a b = cosineSimilarityIn ar (take (overlap a b) a) (take (overlap a b) b)"
proof -
  have o: "overlap (take (overlap a b) a) (take (overlap a b) b) = overlap a b"
    by (simp add: overlap_def)
  show ?thesis
    by (subst (2) cosineSimilarityIn_prefix, subst cosineSimilarityIn_prefix) (simp only: o take_take min.idem)
qed

lemma cosineSimilarity64_zero:
  assumes "overlap x y = 0 \<or> (\<forall>v \<in> set (take (overlap x y) x). v = Finite 0)
      \<or> (\<forall>v \<in> set (take (overlap x y) y). v = Finite 0)"
  shows "cosineSimilarityIn binary64 x y = Finite 0"
proof -
  have z: "opZero binary64 = Finite 0" by (simp add: binary64_def)
  have f: "opFalsy binary64 (Finite 0)" by (simp add: binary64_def)
  from assms consider "overlap x y = 0"
    | "squaresOver binary64 (take (overlap x y) x) = Finite 0"
    | "squaresOver binary64 (take (overlap x y) y) = Finite 0"
    using squaresOver_zero [of "take (overlap x y) x"] squaresOver_zero [of "take (overlap x y) y"]
    by auto
  then show ?thesis
    by cases (simp_all add: cosineSimilarityIn_prefix z f)
qed

lemma cosineSimilarity64_self:
  assumes "squaresOver binary64 z = Finite n" and "2 powi (- 1021) \<le> n" and "n \<le> 2 powi 1022"
  shows "\<exists>q. cosineSimilarityIn binary64 z z = Finite q \<and> \<bar>q - 1\<bar> \<le> 1 / 2 ^ 50"
proof -
  have "0 < (2::real) powi (- 1021)" by (simp only: zero_less_power_int zero_less_numeral)
  with assms(2) have nz: "n \<noteq> 0" by linarith
  have ne: "z \<noteq> []"
  proof
    assume "z = []"
    with assms(1) nz show False by (simp add: squaresOver_def binary64_def)
  qed
  have "cosineSimilarityIn binary64 z z
      = fdiv (Finite n) (fmul (fsqrt (Finite n)) (fsqrt (Finite n)))"
    unfolding cosineSimilarityIn_self assms(1) using ne nz by (simp add: binary64_def)
  with self_similarity_bound [OF assms(2,3)] show ?thesis by simp
qed

text \<open>
  C5 (as amended). In either arithmetic \<^const>\<open>cosineSimilarityIn\<close> depends on the
  overlapping prefix of the two vectors only: it is the dot product over that prefix
  divided by the product of the square roots of the two sums of squares over the same
  prefix, and the zero of the arithmetic when the overlap is empty or a sum of squares is
  zero or NaN. In binary64 it is 0 when the overlap is empty or one vector is all zeros
  over the overlap; \<open>[1,0]\<close> against \<open>[0,1]\<close> gives 0; and the similarity of a vector
  with itself is within \<open>2\<^sup>-\<^sup>5\<^sup>0\<close> of 1 whenever its sum of squares, as computed, is
  finite and between \<open>2\<^sup>-\<^sup>1\<^sup>0\<^sup>2\<^sup>1\<close> and \<open>2\<^sup>1\<^sup>0\<^sup>2\<^sup>2\<close>. In exact arithmetic it is
  the dot product over the magnitudes, and exactly 1 for a vector with a nonzero entry
  against itself.
\<close>

theorem C5_cosineSimilarity:
  "cosineSimilarityIn ar a b = cosineSimilarityIn ar (take (overlap a b) a) (take (overlap a b) b)
   \<and> cosineSimilarityIn ar a b =
       (if overlap a b = 0 \<or> opFalsy ar (squaresOver ar (take (overlap a b) a))
           \<or> opFalsy ar (squaresOver ar (take (overlap a b) b))
        then opZero ar
        else opDiv ar (dotOver ar (take (overlap a b) a) (take (overlap a b) b))
               (opMul ar (opSqrt ar (squaresOver ar (take (overlap a b) a)))
                         (opSqrt ar (squaresOver ar (take (overlap a b) b)))))
   \<and> (overlap x y = 0 \<or> (\<forall>v \<in> set (take (overlap x y) x). v = Finite 0)
         \<or> (\<forall>v \<in> set (take (overlap x y) y). v = Finite 0)
       \<longrightarrow> cosineSimilarityIn binary64 x y = Finite 0)
   \<and> cosineSimilarityIn binary64 [Finite 1, Finite 0] [Finite 0, Finite 1] = Finite 0
   \<and> (squaresOver binary64 z = Finite n \<and> 2 powi (- 1021) \<le> n \<and> n \<le> 2 powi 1022
       \<longrightarrow> (\<exists>q. cosineSimilarityIn binary64 z z = Finite q \<and> \<bar>q - 1\<bar> \<le> 1 / 2 ^ 50))
   \<and> cosineSimilarity c e =
       (if overlap c e = 0 \<or> magPrefix (overlap c e) c = 0 \<or> magPrefix (overlap c e) e = 0
        then 0
        else dotPrefix c e / (magPrefix (overlap c e) c * magPrefix (overlap c e) e))
   \<and> ((\<exists>v \<in> set c. v \<noteq> 0) \<longrightarrow> cosineSimilarity c c = 1)"
proof (intro conjI impI)
  show "cosineSimilarityIn ar a b = cosineSimilarityIn ar (take (overlap a b) a) (take (overlap a b) b)"
    by (rule cosineSimilarityIn_take)
  show "cosineSimilarityIn ar a b =
       (if overlap a b = 0 \<or> opFalsy ar (squaresOver ar (take (overlap a b) a))
           \<or> opFalsy ar (squaresOver ar (take (overlap a b) b))
        then opZero ar
        else opDiv ar (dotOver ar (take (overlap a b) a) (take (overlap a b) b))
               (opMul ar (opSqrt ar (squaresOver ar (take (overlap a b) a)))
                         (opSqrt ar (squaresOver ar (take (overlap a b) b)))))"
    by (rule cosineSimilarityIn_prefix)
  show "cosineSimilarityIn binary64 x y = Finite 0"
    if "overlap x y = 0 \<or> (\<forall>v \<in> set (take (overlap x y) x). v = Finite 0)
         \<or> (\<forall>v \<in> set (take (overlap x y) y). v = Finite 0)"
    using that by (rule cosineSimilarity64_zero)
  show "cosineSimilarityIn binary64 [Finite 1, Finite 0] [Finite 0, Finite 1] = Finite 0"
    by (rule orthogonal64)
  show "\<exists>q. cosineSimilarityIn binary64 z z = Finite q \<and> \<bar>q - 1\<bar> \<le> 1 / 2 ^ 50"
    if "squaresOver binary64 z = Finite n \<and> 2 powi (- 1021) \<le> n \<and> n \<le> 2 powi 1022"
    using that cosineSimilarity64_self by blast
  show "cosineSimilarity c e =
       (if overlap c e = 0 \<or> magPrefix (overlap c e) c = 0 \<or> magPrefix (overlap c e) e = 0
        then 0
        else dotPrefix c e / (magPrefix (overlap c e) c * magPrefix (overlap c e) e))"
    by (rule cosineSimilarity_prefix)
  show "cosineSimilarity c c = 1" if "\<exists>v \<in> set c. v \<noteq> 0"
    using that by (rule cosineSimilarity_self)
qed

text \<open>
  The amended C5 on \<open>[1,1]\<close> against itself, on a zero vector against a shorter one,
  and in exact arithmetic on \<open>[3,4]\<close> against itself and against \<open>[3,4,5]\<close>.
\<close>

theorem C5_cosineSimilarity_witness:
  "squaresOver binary64 [Finite 1, Finite 1] = Finite 2
   \<and> (\<exists>q. cosineSimilarityIn binary64 [Finite 1, Finite 1] [Finite 1, Finite 1] = Finite q
          \<and> \<bar>q - 1\<bar> \<le> 1 / 2 ^ 50)
   \<and> overlap [Finite 0, Finite 0] [Finite 5] = 1
   \<and> cosineSimilarityIn binary64 [Finite 0, Finite 0] [Finite 5] = Finite 0
   \<and> cosineSimilarity [3, 4] [3, 4] = 1
   \<and> overlap [3, 4 :: real] [3, 4, 5 :: real] = 2 \<and> cosineSimilarity [3, 4] [3, 4, 5] = 1"
proof -
  have sq: "squaresOver binary64 [Finite 1, Finite 1] = Finite 2"
    by (simp add: squaresOver_def binary64_def binary64_steps del: fadd.simps fmul.simps)
  have range: "2 powi (- 1021) \<le> (2::real)" "(2::real) \<le> 2 powi 1022"
  proof -
    have "(2::real) powi (- 1021) \<le> 2 powi 1" by (intro power_int_increasing) simp_all
    then show "2 powi (- 1021) \<le> (2::real)" by (simp del: power_int_numeral_neg_numeral power_int_minus)
    have "(2::real) powi 1 \<le> 2 powi 1022" by (intro power_int_increasing) simp_all
    then show "(2::real) \<le> 2 powi 1022" by (simp del: power_int_numeral)
  qed
  have o: "overlap [Finite 0, Finite 0] [Finite 5] = 1" by (simp add: overlap_def)
  have zero: "\<forall>v \<in> set (take (overlap [Finite 0, Finite 0] [Finite 5]) [Finite 0, Finite 0]). v = Finite 0"
    by (simp add: o)
  have nz: "\<exists>v \<in> set [3, 4 :: real]. v \<noteq> 0" by simp
  have m: "magPrefix 2 [3, 4] = 5" "magPrefix 2 [3, 4, 5] = 5" "dotPrefix [3, 4] [3, 4, 5] = 25"
    "overlap [3, 4 :: real] [3, 4, 5 :: real] = 2"
    by (simp_all add: magPrefix_def dotPrefix_def overlap_def lessThan_Suc numeral_2_eq_2 real_sqrt_unique)
  note t = C5_cosineSimilarity [of binary64 "[Finite 1, Finite 1]" "[Finite 1, Finite 1]"
      "[Finite 0, Finite 0]" "[Finite 5]" "[Finite 1, Finite 1]" 2 "[3, 4]" "[3, 4, 5]"]
  note t3 = t [THEN conjunct2, THEN conjunct2, THEN conjunct1, rule_format, OF disjI2, OF disjI1, OF zero]
  note t5 = t [THEN conjunct2, THEN conjunct2, THEN conjunct2, THEN conjunct2, THEN conjunct1,
      rule_format, OF conjI [OF sq conjI [OF range]]]
  note t6 = t [THEN conjunct2, THEN conjunct2, THEN conjunct2, THEN conjunct2, THEN conjunct2,
      THEN conjunct1]
  note t7 = t [THEN conjunct2, THEN conjunct2, THEN conjunct2, THEN conjunct2, THEN conjunct2,
      THEN conjunct2, rule_format, OF nz]
  from t6 m have r: "cosineSimilarity [3, 4] [3, 4, 5] = 1" by simp
  from sq t5 o t3 t7 m(4) r show ?thesis by (intro conjI)
qed

text \<open>
  C5 as stated fails in the arithmetic the program runs in. The similarity of \<open>[1,1]\<close>
  with itself is \<open>1 - 2\<^sup>-\<^sup>5\<^sup>2\<close> (printed 0.9999999999999998), because the rounded
  square root of 2 squared is not 2; for the nonzero vector \<open>[2\<^sup>-\<^sup>6\<^sup>0\<^sup>0]\<close> the square
  underflows to zero and the result is 0; for \<open>[2\<^sup>6\<^sup>0\<^sup>0]\<close> the square overflows and
  the result is NaN.
\<close>

theorem C5_counterexample:
  "cosineSimilarityIn binary64 [Finite 1, Finite 1] [Finite 1, Finite 1]
     = Finite (4503599627370495 / 4503599627370496)
   \<and> cosineSimilarityIn binary64 [Finite 1, Finite 1] [Finite 1, Finite 1] \<noteq> Finite 1
   \<and> cosineSimilarityIn binary64 [Finite (2 powi (- 600))] [Finite (2 powi (- 600))] = Finite 0
   \<and> cosineSimilarityIn binary64 [Finite (2 powi 600)] [Finite (2 powi 600)] = NaN"
  using cosineSimilarity64_examples by simp

section \<open>Properties of the embedding cache\<close>

lemma storeEmbeddings_other:
  "k \<notin> {p_id (batch ! j) | j. j \<in> set idxs \<and> j < length batch}
   \<Longrightarrow> storeEmbeddings batch idxs items c k = c k"
proof (induction batch idxs items c rule: storeEmbeddings.induct)
  case (1 batch batchIdx idxs item items cache)
  from "1.prems" have a: "k \<notin> {p_id (batch ! j) | j. j \<in> set idxs \<and> j < length batch}"
    and b: "batchIdx < length batch \<Longrightarrow> k \<noteq> p_id (batch ! batchIdx)"
    by auto
  show ?case
    using "1.IH" [OF a] b by (simp split: option.splits)
qed simp_all

lemma storeEmbeddings_dom_mono:
  "dom c \<subseteq> dom (storeEmbeddings batch idxs items c)"
proof (induction batch idxs items c rule: storeEmbeddings.induct)
  case (1 batch batchIdx idxs item items cache)
  have "dom cache \<subseteq> dom (if batchIdx < length batch then
          (case embedding item of
             Some v \<Rightarrow> cache(p_id (batch ! batchIdx) \<mapsto> v)
           | None \<Rightarrow> cache)
        else cache)"
    by (auto split: option.splits)
  with "1.IH" show ?case by simp
qed simp_all

lemma storeEmbeddings_covers:
  "length idxs \<le> length items \<Longrightarrow> \<forall>r \<in> set (take (length idxs) items). embedding r \<noteq> None
   \<Longrightarrow> j \<in> set idxs \<Longrightarrow> j < length batch
   \<Longrightarrow> storeEmbeddings batch idxs items c (p_id (batch ! j)) \<noteq> None"
proof (induction batch idxs items c rule: storeEmbeddings.induct)
  case (1 batch batchIdx idxs item items cache)
  let ?c = "(if batchIdx < length batch then
          (case embedding item of
             Some v \<Rightarrow> cache(p_id (batch ! batchIdx) \<mapsto> v)
           | None \<Rightarrow> cache)
        else cache)"
  show ?case
  proof (cases "j \<in> set idxs")
    case True
    with "1.IH" [of ] "1.prems" show ?thesis by simp
  next
    case False
    with "1.prems" have j: "j = batchIdx" by simp
    from "1.prems" obtain v where v: "embedding item = Some v" by auto
    have "?c (p_id (batch ! j)) \<noteq> None"
      using j v "1.prems" by simp
    then have "p_id (batch ! j) \<in> dom ?c" by auto
    then have "p_id (batch ! j) \<in> dom (storeEmbeddings batch idxs items ?c)"
      using storeEmbeddings_dom_mono by blast
    then show ?thesis by auto
  qed
qed simp_all

lemma set_validIndices:
  "set (validIndices texts) = {j. j < length texts \<and> trim (texts ! j) \<noteq> []}"
  by (auto simp: validIndices_def validEntries_def in_set_enumerate_eq image_iff)

lemma length_validIndices: "length (validIndices texts) = length (validTexts texts)"
  by (simp add: validIndices_def validTexts_def)

lemma validTexts_Nil_iff: "validTexts texts = [] \<longleftrightarrow> (\<forall>t \<in> set texts. trim t = [])"
proof -
  have "validTexts texts = [] \<longleftrightarrow> validIndices texts = []"
    by (simp add: validIndices_def validTexts_def)
  also have "\<dots> \<longleftrightarrow> set (validIndices texts) = {}" by simp
  also have "\<dots> \<longleftrightarrow> (\<forall>t \<in> set texts. trim t = [])"
    unfolding set_validIndices all_set_conv_all_nth by auto
  finally show ?thesis .
qed


lemma createEmbeddings_state:
  "createEmbeddings backend client apiKey model texts s = (r, s')
   \<Longrightarrow> productEmbeddingCache s' = productEmbeddingCache s \<and> calls s' = calls s @
      [\<lparr>callProvider = client, callApiKey = apiKey, callModel = model, callTexts = texts\<rparr>]"
  by (auto simp: createEmbeddings_def Let_def split: if_splits)

lemma ceil_step: "0 < n \<Longrightarrow> Suc ((n - 100 + 99) div 100) = (n + 99) div (100::nat)"
proof (cases "100 \<le> n")
  case True
  then have "n + 99 = (n - 100 + 99) + 100" by simp
  then have "(n + 99) div 100 = (n - 100 + 99) div 100 + 1"
    by (metis div_add_self2 zero_neq_numeral)
  then show ?thesis by simp
next
  case False
  assume "0 < n"
  with False have "(n + 99) div 100 = 1"
    by (intro div_nat_eqI) simp_all
  with False show ?thesis by simp
qed

lemma ceil_real: "(n + 99) div (100::nat) = nat \<lceil>real n / 100\<rceil>"
proof -
  have "\<lceil>real n / 100\<rceil> = \<lceil>of_int (int n) / (of_int 100 :: real)\<rceil>" by simp
  also have "\<dots> = - (- int n div 100)" by (rule ceiling_divide_eq_div)
  finally have c: "\<lceil>real n / 100\<rceil> = - (- int n div 100)" .
  have "int ((n + 99) div 100) = - (- int n div 100)"
    by (simp add: zdiv_int)
  with c show ?thesis by linarith
qed

lemma length_batches: "length (batches xs) = (length xs + 99) div 100"
proof (induction xs rule: batches.induct)
  case (1 xs)
  show ?case
  proof (cases "xs = []")
    case True
    then show ?thesis by (simp add: batches.simps)
  next
    case False
    then have "length (batches xs) = Suc (length (batches (drop BATCH_SIZE xs)))"
      by (subst batches.simps) simp
    also have "\<dots> = Suc ((length xs - 100 + 99) div 100)"
      using "1.IH" [OF False] by (simp add: BATCH_SIZE_def)
    also have "\<dots> = (length xs + 99) div 100"
      using False ceil_step [of "length xs"] by simp
    finally show ?thesis .
  qed
qed

lemma batches_drop:
  "i < length xs \<Longrightarrow> batches (drop i xs) = slice xs i (i + BATCH_SIZE) # batches (drop (i + BATCH_SIZE) xs)"
  by (subst batches.simps) (simp add: slice_def add.commute)

lemma batches_Nil [simp]: "batches [] = []"
  by (subst batches.simps) simp

text \<open>The four ways one turn of the loop can go.\<close>

lemma batchLoop_done:
  "\<not> i < length missing \<Longrightarrow> batchLoop backend client provider apiKey model missing i s = (None, s)"
  by (subst batchLoop.simps) simp

lemma batchLoop_skip:
  "i < length missing \<Longrightarrow> \<not> hasValidText (slice missing i (i + BATCH_SIZE))
   \<Longrightarrow> batchLoop backend client provider apiKey model missing i s
       = batchLoop backend client provider apiKey model missing (i + BATCH_SIZE) s"
  by (subst batchLoop.simps) (simp add: Let_def hasValidText_def)

lemma batchLoop_fail:
  "i < length missing \<Longrightarrow> hasValidText (slice missing i (i + BATCH_SIZE))
   \<Longrightarrow> createEmbeddings backend client apiKey model
         (validTexts (map embeddingText (slice missing i (i + BATCH_SIZE)))) s = (Inl err, s1)
   \<Longrightarrow> batchLoop backend client provider apiKey model missing i s
       = (Some (rethrowEmbeddingError provider err), s1)"
  by (subst batchLoop.simps) (simp add: Let_def hasValidText_def)

lemma batchLoop_ok:
  "i < length missing \<Longrightarrow> hasValidText (slice missing i (i + BATCH_SIZE))
   \<Longrightarrow> createEmbeddings backend client apiKey model
         (validTexts (map embeddingText (slice missing i (i + BATCH_SIZE)))) s = (Inr embeddings, s1)
   \<Longrightarrow> batchLoop backend client provider apiKey model missing i s
       = batchLoop backend client provider apiKey model missing (i + BATCH_SIZE)
           (s1\<lparr>productEmbeddingCache :=
                 storeEmbeddings (slice missing i (i + BATCH_SIZE))
                   (validIndices (map embeddingText (slice missing i (i + BATCH_SIZE)))) embeddings
                   (productEmbeddingCache s1)\<rparr>)"
  by (subst batchLoop.simps) (simp add: Let_def hasValidText_def)

lemma batchLoop_cases [case_names finished skip fail ok]:
  assumes "\<And>i s. \<not> i < length missing \<Longrightarrow> P i s (None, s)"
    and "\<And>i s. i < length missing \<Longrightarrow> \<not> hasValidText (slice missing i (i + BATCH_SIZE))
           \<Longrightarrow> P (i + BATCH_SIZE) s (batchLoop backend client provider apiKey model missing (i + BATCH_SIZE) s)
           \<Longrightarrow> P i s (batchLoop backend client provider apiKey model missing (i + BATCH_SIZE) s)"
    and "\<And>i s err s1. i < length missing \<Longrightarrow> hasValidText (slice missing i (i + BATCH_SIZE))
           \<Longrightarrow> createEmbeddings backend client apiKey model
                 (validTexts (map embeddingText (slice missing i (i + BATCH_SIZE)))) s = (Inl err, s1)
           \<Longrightarrow> P i s (Some (rethrowEmbeddingError provider err), s1)"
    and "\<And>i s embeddings s1 s2. i < length missing \<Longrightarrow> hasValidText (slice missing i (i + BATCH_SIZE))
           \<Longrightarrow> createEmbeddings backend client apiKey model
                 (validTexts (map embeddingText (slice missing i (i + BATCH_SIZE)))) s = (Inr embeddings, s1)
           \<Longrightarrow> s2 = s1\<lparr>productEmbeddingCache :=
                 storeEmbeddings (slice missing i (i + BATCH_SIZE))
                   (validIndices (map embeddingText (slice missing i (i + BATCH_SIZE)))) embeddings
                   (productEmbeddingCache s1)\<rparr>
           \<Longrightarrow> P (i + BATCH_SIZE) s2 (batchLoop backend client provider apiKey model missing (i + BATCH_SIZE) s2)
           \<Longrightarrow> P i s (batchLoop backend client provider apiKey model missing (i + BATCH_SIZE) s2)"
  shows "P i s (batchLoop backend client provider apiKey model missing i s)"
proof (induction "length missing - i" arbitrary: i s rule: less_induct)
  case less
  show ?case
  proof (cases "i < length missing")
    case False
    then show ?thesis using assms(1) by (simp add: batchLoop_done)
  next
    case True
    then have dec: "length missing - (i + BATCH_SIZE) < length missing - i"
      by (simp add: BATCH_SIZE_def)
    show ?thesis
    proof (cases "hasValidText (slice missing i (i + BATCH_SIZE))")
      case False
      with True show ?thesis
        using assms(2) [OF True False less [OF dec]] by (simp add: batchLoop_skip)
    next
      case hv: True
      obtain r s1 where c: "createEmbeddings backend client apiKey model
                 (validTexts (map embeddingText (slice missing i (i + BATCH_SIZE)))) s = (r, s1)"
        by (cases "createEmbeddings backend client apiKey model
                 (validTexts (map embeddingText (slice missing i (i + BATCH_SIZE)))) s")
      show ?thesis
      proof (cases r)
        case (Inl err)
        with c True hv show ?thesis
          using assms(3) [OF True hv] by (simp add: batchLoop_fail)
      next
        case (Inr embeddings)
        with c True hv show ?thesis
          using assms(4) [OF True hv _ refl less [OF dec]] by (simp add: batchLoop_ok)
      qed
    qed
  qed
qed

lemma batchLoop_calls_success:
  "batchLoop backend client provider apiKey model missing i s = (None, s')
   \<longrightarrow> length (calls s') = length (calls s) + length (filter hasValidText (batches (drop i missing)))"
proof (induction i s rule: batchLoop_cases [where backend = backend and client = client and provider = provider
      and apiKey = apiKey and model = model and missing = missing])
  case (finished i s)
  then show ?case by simp
next
  case (skip i s)
  then show ?case by (simp add: batches_drop)
next
  case (fail i s err s1)
  then show ?case by simp
next
  case (ok i s embeddings s1 s2)
  then show ?case using createEmbeddings_state [OF ok(3)] by (simp add: batches_drop)
qed

lemma batchLoop_calls_bound:
  "length (calls (snd (batchLoop backend client provider apiKey model missing i s)))
     \<le> length (calls s) + length (batches (drop i missing))"
proof (induction i s rule: batchLoop_cases [where backend = backend and client = client and provider = provider
      and apiKey = apiKey and model = model and missing = missing])
  case (finished i s)
  then show ?case by simp
next
  case (skip i s)
  then show ?case by (simp add: batches_drop)
next
  case (fail i s err s1)
  then show ?case using createEmbeddings_state [OF fail(3)] by (simp add: batches_drop)
next
  case (ok i s embeddings s1 s2)
  then show ?case using createEmbeddings_state [OF ok(3)] by (simp add: batches_drop)
qed

text \<open>Which cache entries the loop can touch.\<close>

lemma slice_nth_set:
  "j < length (slice xs i (i + n)) \<Longrightarrow> slice xs i (i + n) ! j \<in> set (drop i xs)"
  by (simp add: slice_def)

lemma batchLoop_frame:
  "k \<notin> p_id ` {p \<in> set (drop i missing). trim (embeddingText p) \<noteq> []}
   \<longrightarrow> productEmbeddingCache (snd (batchLoop backend client provider apiKey model missing i s)) k
       = productEmbeddingCache s k"
proof (induction i s rule: batchLoop_cases [where backend = backend and client = client and provider = provider
      and apiKey = apiKey and model = model and missing = missing])
  case (finished i s)
  then show ?case by simp
next
  case (skip i s)
  have "set (drop (i + BATCH_SIZE) missing) \<subseteq> set (drop i missing)"
    by (metis add.commute drop_drop set_drop_subset)
  with skip show ?case by auto
next
  case (fail i s err s1)
  then show ?case using createEmbeddings_state [OF fail(3)] by simp
next
  case (ok i s embeddings s1 s2)
  let ?batch = "slice missing i (i + BATCH_SIZE)"
  have sub: "set (drop (i + BATCH_SIZE) missing) \<subseteq> set (drop i missing)"
    by (metis add.commute drop_drop set_drop_subset)
  show ?case
  proof
    assume k: "k \<notin> p_id ` {p \<in> set (drop i missing). trim (embeddingText p) \<noteq> []}"
    with sub have "k \<notin> p_id ` {p \<in> set (drop (i + BATCH_SIZE) missing). trim (embeddingText p) \<noteq> []}"
      by auto
    with ok have a: "productEmbeddingCache (snd (batchLoop backend client provider apiKey model missing (i + BATCH_SIZE) s2)) k
        = productEmbeddingCache s2 k" by simp
    have "k \<notin> {p_id (?batch ! j) | j. j \<in> set (validIndices (map embeddingText ?batch)) \<and> j < length ?batch}"
    proof
      assume "k \<in> {p_id (?batch ! j) | j. j \<in> set (validIndices (map embeddingText ?batch)) \<and> j < length ?batch}"
      then obtain j where j: "k = p_id (?batch ! j)" "j < length ?batch" "trim (embeddingText (?batch ! j)) \<noteq> []"
        by (auto simp: set_validIndices)
      with slice_nth_set [of j missing i BATCH_SIZE] k show False by auto
    qed
    then have "productEmbeddingCache s2 k = productEmbeddingCache s1 k"
      using ok(4) by (simp add: storeEmbeddings_other)
    with a createEmbeddings_state [OF ok(3)] show "productEmbeddingCache (snd (batchLoop backend client provider apiKey model missing (i + BATCH_SIZE) s2)) k
       = productEmbeddingCache s k" by simp
  qed
qed

lemma batchLoop_dom_mono:
  "dom (productEmbeddingCache s)
     \<subseteq> dom (productEmbeddingCache (snd (batchLoop backend client provider apiKey model missing i s)))"
proof (induction i s rule: batchLoop_cases [where backend = backend and client = client and provider = provider
      and apiKey = apiKey and model = model and missing = missing])
  case (finished i s)
  then show ?case by simp
next
  case (skip i s)
  then show ?case by simp
next
  case (fail i s err s1)
  then show ?case using createEmbeddings_state [OF fail(3)] by simp
next
  case (ok i s embeddings s1 s2)
  have "dom (productEmbeddingCache s) \<subseteq> dom (productEmbeddingCache s2)"
    using createEmbeddings_state [OF ok(3)] ok(4) storeEmbeddings_dom_mono by simp
  with ok(5) show ?case by blast
qed

lemma createEmbeddings_calls:
  "createEmbeddings backend client apiKey model texts s = (r, s')
   \<Longrightarrow> \<exists>new. calls s' = calls s @ new \<and> (\<forall>c \<in> set new. callProvider c = client \<and> callModel c = model)"
  by (auto simp: createEmbeddings_def Let_def split: if_splits)

lemma batchLoop_calls:
  "\<exists>new. calls (snd (batchLoop backend client provider apiKey model missing i s)) = calls s @ new
     \<and> (\<forall>c \<in> set new. callProvider c = client \<and> callModel c = model)"
proof (induction i s rule: batchLoop_cases [where backend = backend and client = client and provider = provider
      and apiKey = apiKey and model = model and missing = missing])
  case (finished i s)
  then show ?case by simp
next
  case (skip i s)
  then show ?case by simp
next
  case (fail i s err s1)
  then show ?case using createEmbeddings_calls [OF fail(3)] by simp
next
  case (ok i s embeddings s1 s2)
  from createEmbeddings_calls [OF ok(3)] obtain new1
    where n1: "calls s1 = calls s @ new1" "\<forall>c \<in> set new1. callProvider c = client \<and> callModel c = model" by blast
  from ok(5) obtain new2
    where n2: "calls (snd (batchLoop backend client provider apiKey model missing (i + BATCH_SIZE) s2))
        = calls s2 @ new2" "\<forall>c \<in> set new2. callProvider c = client \<and> callModel c = model" by blast
  from n1 n2 ok(4) have "calls (snd (batchLoop backend client provider apiKey model missing (i + BATCH_SIZE) s2))
        = calls s @ (new1 @ new2) \<and> (\<forall>c \<in> set (new1 @ new2). callProvider c = client \<and> callModel c = model)"
    by auto
  then show ?case by blast
qed

lemma answeredInFull_iff:
  "answeredInFull backend s s' \<longleftrightarrow>
     (\<forall>n. length (calls s) \<le> n \<and> n < length (calls s') \<longrightarrow>
        (\<exists>embeddings. backend n (calls s' ! n) = Inr embeddings
           \<and> length (callTexts (calls s' ! n)) \<le> length embeddings
           \<and> (\<forall>item \<in> set (take (length (callTexts (calls s' ! n))) embeddings). embedding item \<noteq> None)))"
proof -
  have c: "\<And>x P. (case x of Inl (err::error) \<Rightarrow> False | Inr (v::EmbeddingResponse list) \<Rightarrow> P v) = (\<exists>v. x = Inr v \<and> P v)"
    by (auto split: sum.splits)
  show ?thesis
    unfolding answeredInFull_def list_all_iff c by auto
qed

lemma createEmbeddings_answered:
  assumes c: "createEmbeddings backend client apiKey model texts s = (Inr embeddings, s1)"
    and later: "calls s' = calls s1 @ new"
    and full: "answeredInFull backend s s'"
  shows "length texts \<le> length embeddings
     \<and> (\<forall>item \<in> set (take (length texts) embeddings). embedding item \<noteq> None)
     \<and> answeredInFull backend s1 s'"
proof -
  let ?call = "\<lparr>callProvider = client, callApiKey = apiKey, callModel = model, callTexts = texts\<rparr>"
  from c have b: "backend (length (calls s)) ?call = Inr embeddings" and s1: "calls s1 = calls s @ [?call]"
    by (auto simp: createEmbeddings_def Let_def split: if_splits)
  from s1 later have nth: "calls s' ! length (calls s) = ?call" and len: "length (calls s) < length (calls s')"
    by (simp_all add: nth_append)
  from full [unfolded answeredInFull_iff, rule_format, of "length (calls s)"] len nth b
  have a: "length texts \<le> length embeddings"
    "\<forall>item \<in> set (take (length texts) embeddings). embedding item \<noteq> None" by auto
  have "answeredInFull backend s1 s'"
    unfolding answeredInFull_iff
  proof (intro allI impI)
    fix n assume "length (calls s1) \<le> n \<and> n < length (calls s')"
    with s1 have "length (calls s) \<le> n \<and> n < length (calls s')" by simp
    with full [unfolded answeredInFull_iff] show "\<exists>embeddings. backend n (calls s' ! n) = Inr embeddings
           \<and> length (callTexts (calls s' ! n)) \<le> length embeddings
           \<and> (\<forall>item \<in> set (take (length (callTexts (calls s' ! n))) embeddings). embedding item \<noteq> None)"
      by blast
  qed
  with a show ?thesis by blast
qed

lemma drop_split_set:
  "set (drop i xs) = set (slice xs i (i + n)) \<union> set (drop (i + n) xs)"
proof -
  have "set (take n (drop i xs) @ drop n (drop i xs)) = set (take n (drop i xs)) \<union> set (drop n (drop i xs))"
    by (rule set_append)
  then have "set (drop i xs) = set (take n (drop i xs)) \<union> set (drop n (drop i xs))"
    by (simp only: append_take_drop_id)
  then show ?thesis by (simp add: slice_def add.commute)
qed

lemma batchLoop_covers:
  "batchLoop backend client provider apiKey model missing i s = (None, s') \<and> answeredInFull backend s s'
   \<longrightarrow> (\<forall>p \<in> set (drop i missing). trim (embeddingText p) \<noteq> [] \<longrightarrow> productEmbeddingCache s' (p_id p) \<noteq> None)"
proof (induction i s rule: batchLoop_cases [where backend = backend and client = client and provider = provider
      and apiKey = apiKey and model = model and missing = missing])
  case (finished i s)
  then show ?case by simp
next
  case (skip i s)
  let ?batch = "slice missing i (i + BATCH_SIZE)"
  from skip(2) have "\<forall>p \<in> set ?batch. trim (embeddingText p) = []"
    by (simp add: hasValidText_def validTexts_Nil_iff)
  with skip(3) show ?case
    unfolding drop_split_set [of i missing BATCH_SIZE] by auto
next
  case (fail i s err s1)
  then show ?case by simp
next
  case (ok i s embeddings s1 s2)
  let ?batch = "slice missing i (i + BATCH_SIZE)"
  let ?texts = "map embeddingText ?batch"
  let ?rest = "batchLoop backend client provider apiKey model missing (i + BATCH_SIZE) s2"
  show ?case
  proof (intro impI ballI, elim conjE)
    fix p
    assume res: "?rest = (None, s')" and full: "answeredInFull backend s s'"
      and p: "p \<in> set (drop i missing)" and valid: "trim (embeddingText p) \<noteq> []"
    from batchLoop_calls [of backend client provider apiKey model missing "i + BATCH_SIZE" s2] res ok(4)
    obtain new where new: "calls s' = calls s1 @ new" by auto
    from createEmbeddings_answered [OF ok(3) new full]
    have len: "length (validIndices ?texts) \<le> length embeddings"
      and some: "\<forall>r \<in> set (take (length (validIndices ?texts)) embeddings). embedding r \<noteq> None"
      and full1: "answeredInFull backend s1 s'"
      by (simp_all add: length_validIndices)
    from full1 ok(4) have full2: "answeredInFull backend s2 s'"
      by (simp add: answeredInFull_iff)
    from p consider "p \<in> set ?batch" | "p \<in> set (drop (i + BATCH_SIZE) missing)"
      unfolding drop_split_set [of i missing BATCH_SIZE] by blast
    then show "productEmbeddingCache s' (p_id p) \<noteq> None"
    proof cases
      case 1
      then obtain j where j: "j < length ?batch" "?batch ! j = p"
        by (auto simp: in_set_conv_nth)
      with valid have "j \<in> set (validIndices ?texts)"
        by (simp add: set_validIndices)
      from storeEmbeddings_covers [OF len some this j(1)] j(2) ok(4)
      have "p_id p \<in> dom (productEmbeddingCache s2)" by auto
      with batchLoop_dom_mono [of s2 backend client provider apiKey model missing "i + BATCH_SIZE"] res
      show ?thesis by auto
    next
      case 2
      with ok(5) res valid full2 show ?thesis by simp
    qed
  qed
qed

lemma batchLoop_all_blank:
  "(\<forall>p \<in> set (drop i missing). trim (embeddingText p) = [])
   \<longrightarrow> batchLoop backend client provider apiKey model missing i s = (None, s)"
proof (induction i s rule: batchLoop_cases [where backend = backend and client = client and provider = provider
      and apiKey = apiKey and model = model and missing = missing])
  case (finished i s)
  then show ?case by simp
next
  case (skip i s)
  then show ?case
    unfolding drop_split_set [of i missing BATCH_SIZE] by auto
next
  case (fail i s err s1)
  then show ?case
    unfolding drop_split_set [of i missing BATCH_SIZE] by (auto simp: hasValidText_def validTexts_Nil_iff)
next
  case (ok i s embeddings s1 s2)
  then show ?case
    unfolding drop_split_set [of i missing BATCH_SIZE] by (auto simp: hasValidText_def validTexts_Nil_iff)
qed



lemma getProductEmbeddings_loop:
  assumes "createAIProviderClient provider = Inr client"
  shows "getProductEmbeddings backend products provider apiKey model s =
     (case batchLoop backend client provider apiKey model (missingProducts s products) 0 s of
        (Some err, s') \<Rightarrow> (Inl err, s')
      | (None, s') \<Rightarrow> (Inr (productEmbeddingCache s'), s'))"
  using assms by (simp add: getProductEmbeddings_def Let_def batchLoop_done)

lemma getProductEmbeddings_snd:
  assumes "createAIProviderClient provider = Inr client"
  shows "snd (getProductEmbeddings backend products provider apiKey model s) =
     snd (batchLoop backend client provider apiKey model (missingProducts s products) 0 s)"
  by (simp add: getProductEmbeddings_loop [OF assms] split: prod.splits option.splits)

lemma getProductEmbeddings_unsupported:
  assumes "createAIProviderClient provider = Inl err"
  shows "getProductEmbeddings backend products provider apiKey model s = (Inl err, s)"
  using assms by (simp add: getProductEmbeddings_def)

lemma getProductEmbeddings_success:
  assumes "getProductEmbeddings backend products provider apiKey model s = (Inr m, s')"
  shows "\<exists>client. createAIProviderClient provider = Inr client
     \<and> batchLoop backend client provider apiKey model (missingProducts s products) 0 s = (None, s')
     \<and> m = productEmbeddingCache s'"
proof (cases "createAIProviderClient provider")
  case (Inl err)
  with assms show ?thesis by (simp add: getProductEmbeddings_unsupported)
next
  case (Inr client)
  with assms show ?thesis
    by (auto simp: getProductEmbeddings_loop [OF Inr] split: prod.splits option.splits)
qed

lemma batches_valid:
  "(\<forall>p \<in> set xs. trim (embeddingText p) \<noteq> []) \<Longrightarrow> b \<in> set (batches xs) \<Longrightarrow> hasValidText b"
proof (induction xs rule: batches.induct)
  case (1 xs)
  show ?case
  proof (cases "xs = []")
    case True
    with "1.prems" show ?thesis by simp
  next
    case False
    then have split: "batches xs = take BATCH_SIZE xs # batches (drop BATCH_SIZE xs)"
      by (subst batches.simps) simp
    from "1.prems"(2) consider "b = take BATCH_SIZE xs" | "b \<in> set (batches (drop BATCH_SIZE xs))"
      unfolding split by auto
    then show ?thesis
    proof cases
      case 1
      from False have "hd xs \<in> set (take BATCH_SIZE xs)"
        by (cases xs) (simp_all add: BATCH_SIZE_def)
      moreover from False "1.prems"(1) have "trim (embeddingText (hd xs)) \<noteq> []" by simp
      ultimately show ?thesis
        unfolding 1 hasValidText_def validTexts_Nil_iff by auto
    next
      case 2
      have "\<forall>p \<in> set (drop BATCH_SIZE xs). trim (embeddingText p) \<noteq> []"
        using "1.prems"(1) by (meson in_set_dropD)
      from "1.IH" [OF False this 2] show ?thesis .
    qed
  qed
qed

text \<open>
  C6 (as amended). Let \<open>N\<close> be the number of requested items missing from the cache. A
  call of \<^const>\<open>getProductEmbeddings\<close> makes at most \<open>\<lceil>N / 100\<rceil>\<close> provider calls; when
  it succeeds it makes exactly one call per batch of 100 missing items that holds at least
  one item with non-blank text, which is \<open>\<lceil>N / 100\<rceil>\<close> when every missing item has
  non-blank text. With no item missing the state is untouched, and the entries of items
  already cached are left as they are. After a successful call in which every provider
  call made was answered with an embedding for each text sent, the same call again
  succeeds without any provider call or cache write, whatever the backend would answer
  to further calls.
\<close>

theorem C6_provider_calls:
  assumes run: "getProductEmbeddings backend products provider apiKey model s = (r, s')"
  shows "length (calls s') \<le> length (calls s)
            + nat \<lceil>real (length (missingProducts s products)) / real BATCH_SIZE\<rceil>
    \<and> (isl r \<or> length (calls s') = length (calls s)
            + length (filter hasValidText (batches (missingProducts s products))))
    \<and> (\<not> isl r \<and> (\<forall>p \<in> set (missingProducts s products). trim (embeddingText p) \<noteq> []) \<longrightarrow>
         length (calls s') = length (calls s)
            + nat \<lceil>real (length (missingProducts s products)) / real BATCH_SIZE\<rceil>)
    \<and> (missingProducts s products = [] \<longrightarrow> s' = s)
    \<and> (\<forall>p \<in> set products. productEmbeddingCache s (p_id p) \<noteq> None \<longrightarrow>
         productEmbeddingCache s' (p_id p) = productEmbeddingCache s (p_id p))
    \<and> (\<not> isl r \<and> answeredInFull backend s s' \<longrightarrow>
         getProductEmbeddings backend products provider apiKey model s'
           = (Inr (productEmbeddingCache s'), s'))"
proof -
  let ?missing = "missingProducts s products"
  have ceil: "nat \<lceil>real (length ?missing) / real BATCH_SIZE\<rceil> = length (batches ?missing)"
    by (simp add: length_batches ceil_real BATCH_SIZE_def)
  show ?thesis
  proof (cases "createAIProviderClient provider")
    case (Inl err)
    with run show ?thesis by (auto simp: getProductEmbeddings_unsupported)
  next
    case (Inr client)
    let ?loop = "batchLoop backend client provider apiKey model ?missing 0 s"
    from run have s': "s' = snd ?loop"
      using getProductEmbeddings_snd [OF Inr, of backend products apiKey model s] by simp
    have bound: "length (calls s') \<le> length (calls s) + nat \<lceil>real (length ?missing) / real BATCH_SIZE\<rceil>"
      unfolding ceil s' using batchLoop_calls_bound [of backend client provider apiKey model ?missing 0 s]
      by simp
    have ok: "?loop = (None, s')" if "\<not> isl r"
      using that run by (auto simp: getProductEmbeddings_loop [OF Inr] split: prod.splits option.splits)
    have exact: "isl r \<or> length (calls s') = length (calls s) + length (filter hasValidText (batches ?missing))"
      using ok batchLoop_calls_success [of backend client provider apiKey model ?missing 0 s s'] by auto
    have full: "length (calls s') = length (calls s) + nat \<lceil>real (length ?missing) / real BATCH_SIZE\<rceil>"
      if "\<not> isl r" and valid: "\<forall>p \<in> set ?missing. trim (embeddingText p) \<noteq> []"
    proof -
      have "\<forall>b \<in> set (batches ?missing). hasValidText b"
        using valid batches_valid by blast
      then have "filter hasValidText (batches ?missing) = batches ?missing" by simp
      with exact that(1) show ?thesis by (simp add: ceil)
    qed
    have none: "s' = s" if "?missing = []"
      using that s' by (simp add: batchLoop_done)
    have kept: "\<forall>p \<in> set products. productEmbeddingCache s (p_id p) \<noteq> None \<longrightarrow>
         productEmbeddingCache s' (p_id p) = productEmbeddingCache s (p_id p)"
    proof (intro ballI impI)
      fix p assume "p \<in> set products" and c: "productEmbeddingCache s (p_id p) \<noteq> None"
      then have "p_id p \<notin> p_id ` {q \<in> set (drop 0 ?missing). trim (embeddingText q) \<noteq> []}"
        by (auto simp: missingProducts_def)
      with batchLoop_frame [of "p_id p" 0 ?missing backend client provider apiKey model s]
      show "productEmbeddingCache s' (p_id p) = productEmbeddingCache s (p_id p)"
        unfolding s' by blast
    qed
    have again: "getProductEmbeddings backend products provider apiKey model s'
           = (Inr (productEmbeddingCache s'), s')" if "\<not> isl r" and a: "answeredInFull backend s s'"
    proof -
      from batchLoop_covers [of backend client provider apiKey model ?missing 0 s s'] ok [OF that(1)] a
      have cov: "\<forall>p \<in> set ?missing. trim (embeddingText p) \<noteq> [] \<longrightarrow> productEmbeddingCache s' (p_id p) \<noteq> None"
        by simp
      have "\<forall>p \<in> set (drop 0 (missingProducts s' products)). trim (embeddingText p) = []"
      proof
        fix p assume "p \<in> set (drop 0 (missingProducts s' products))"
        then have p: "p \<in> set products" "productEmbeddingCache s' (p_id p) = None"
          by (simp_all add: missingProducts_def)
        have "productEmbeddingCache s (p_id p) = None"
          using batchLoop_dom_mono [of s backend client provider apiKey model ?missing 0] p(2)
          unfolding s' by auto
        with p(1) have "p \<in> set ?missing" by (simp add: missingProducts_def)
        with cov p(2) show "trim (embeddingText p) = []" by blast
      qed
      with batchLoop_all_blank [of 0 "missingProducts s' products" backend client provider apiKey model s']
      have "batchLoop backend client provider apiKey model (missingProducts s' products) 0 s' = (None, s')"
        by blast
      then show ?thesis by (simp add: getProductEmbeddings_loop [OF Inr])
    qed
    from bound exact full none kept again show ?thesis by blast
  qed
qed

text \<open>
  The amended C6 on a blank item and a described one, against a backend that answers its
  first call in full and every later call with no embedding at all: one provider call,
  none on the repeat; and \<open>\<lceil>N / 100\<rceil>\<close> calls when all missing items have text.
\<close>

theorem C6_provider_calls_witness:
  "length (calls (snd (getProductEmbeddings onceBackend [blankProduct, oakBench] ''openai'' ''key'' None emptyState))) = 1
   \<and> answeredInFull onceBackend emptyState
        (snd (getProductEmbeddings onceBackend [blankProduct, oakBench] ''openai'' ''key'' None emptyState))
   \<and> length (calls (snd (getProductEmbeddings onceBackend [blankProduct, oakBench] ''openai'' ''key'' None
        (snd (getProductEmbeddings onceBackend [blankProduct, oakBench] ''openai'' ''key'' None emptyState))))) = 1
   \<and> length (calls (snd (getProductEmbeddings unitBackend [oakBench] ''openai'' ''key'' None emptyState)))
       = length (calls emptyState) + nat \<lceil>real (length (missingProducts emptyState [oakBench])) / real BATCH_SIZE\<rceil>"
proof -
  let ?run = "getProductEmbeddings onceBackend [blankProduct, oakBench] ''openai'' ''key'' None emptyState"
  let ?one = "getProductEmbeddings unitBackend [oakBench] ''openai'' ''key'' None emptyState"
  have ok: "\<not> isl (fst ?run)" "\<not> isl (fst ?one)" by code_simp+
  have n: "length (calls (snd ?run)) = 1" by code_simp
  have full: "answeredInFull onceBackend emptyState (snd ?run)" by code_simp
  have v: "\<forall>p \<in> set (missingProducts emptyState [oakBench]). trim (embeddingText p) \<noteq> []"
    by code_simp
  from C6_provider_calls [of onceBackend "[blankProduct, oakBench]" "''openai''" "''key''" None emptyState
      "fst ?run" "snd ?run"] ok(1) full
  have "getProductEmbeddings onceBackend [blankProduct, oakBench] ''openai'' ''key'' None (snd ?run)
      = (Inr (productEmbeddingCache (snd ?run)), snd ?run)" by simp
  then have again: "length (calls (snd (getProductEmbeddings onceBackend [blankProduct, oakBench] ''openai'' ''key'' None (snd ?run)))) = 1"
    using n by simp
  from C6_provider_calls [of unitBackend "[oakBench]" "''openai''" "''key''" None emptyState
      "fst ?one" "snd ?one"] ok(2) v
  have "length (calls (snd ?one))
       = length (calls emptyState) + nat \<lceil>real (length (missingProducts emptyState [oakBench])) / real BATCH_SIZE\<rceil>"
    by simp
  with n full again show ?thesis by simp
qed

text \<open>
  C6 as stated fails under either reading of \<open>N\<close>. Counting every item missing from the
  cache: one item is missing, so \<open>\<lceil>N / 100\<rceil> = 1\<close>, but its joined text is empty, the
  batch is skipped, and no provider call is made. Counting only the missing items that
  have text to embed: of 101 missing items the first and the last have text, so
  \<open>\<lceil>N / 100\<rceil> = \<lceil>2 / 100\<rceil> = 1\<close>, but they fall into different batches and two provider
  calls are made.
\<close>

theorem C6_counterexample:
  "length (missingProducts emptyState [blankProduct]) = 1
   \<and> nat \<lceil>real (length (missingProducts emptyState [blankProduct])) / real BATCH_SIZE\<rceil> = 1
   \<and> length (calls (snd (getProductEmbeddings unitBackend [blankProduct] ''openai'' ''key'' None emptyState)))
        - length (calls emptyState) = 0
   \<and> length (missingProducts emptyState spreadOut) = 101
   \<and> length (filter (\<lambda>p. trim (embeddingText p) \<noteq> []) (missingProducts emptyState spreadOut)) = 2
   \<and> nat \<lceil>real (length (filter (\<lambda>p. trim (embeddingText p) \<noteq> []) (missingProducts emptyState spreadOut)))
            / real BATCH_SIZE\<rceil> = 1
   \<and> \<not> isl (fst (getProductEmbeddings unitBackend spreadOut ''openai'' ''key'' None emptyState))
   \<and> length (calls (snd (getProductEmbeddings unitBackend spreadOut ''openai'' ''key'' None emptyState)))
        - length (calls emptyState) = 2"
  by code_simp



section \<open>Properties of candidates and ranking\<close>

lemma mapOrThrow_Inr:
  "mapOrThrow f xs = Inr ys \<Longrightarrow> length ys = length xs \<and> (\<forall>i < length xs. f (xs ! i) = Inr (ys ! i))"
proof (induction xs arbitrary: ys)
  case Nil
  then show ?case by simp
next
  case (Cons x xs)
  from Cons.prems obtain y ys' where y: "f x = Inr y" and ys': "mapOrThrow f xs = Inr ys'" and ys: "ys = y # ys'"
    by (auto split: sum.splits)
  from Cons.IH [OF ys'] y ys show ?case
    by (auto simp: nth_Cons split: nat.splits)
qed

lemma scoreProduct_product:
  "scoreProduct cfg analysis combined target products qe embs p = Inr sp \<Longrightarrow> product sp = p"
  by (auto simp: scoreProduct_def Let_def split: sum.splits)

lemma scoreCandidates_products:
  assumes "scoreCandidates cfg analysis combined qt products qe embs = Inr scored"
  shows "map product scored = candidates cfg products"
proof -
  let ?f = "scoreProduct cfg analysis combined (targetPrice qt) products qe embs"
  from assms have m: "mapOrThrow ?f (candidates cfg products) = Inr scored"
    by (simp add: scoreCandidates_def)
  from mapOrThrow_Inr [OF m] have len: "length scored = length (candidates cfg products)"
    and each: "\<forall>i < length (candidates cfg products). ?f (candidates cfg products ! i) = Inr (scored ! i)"
    by simp_all
  show ?thesis
  proof (rule nth_equalityI)
    show "length (map product scored) = length (candidates cfg products)" using len by simp
  next
    fix i assume "i < length (map product scored)"
    with len each have "?f (candidates cfg products ! i) = Inr (scored ! i)" "i < length scored" by simp_all
    then show "map product scored ! i = candidates cfg products ! i"
      using scoreProduct_product by simp
  qed
qed

lemma sliceTo_length: "0 \<le> k \<Longrightarrow> int (length (sliceTo xs (Some k))) \<le> k"
  by (simp add: sliceTo_def)

lemma sliceTo_set: "set (sliceTo xs e) \<subseteq> set xs"
  by (auto simp: sliceTo_def split: option.splits dest: in_set_takeD)

lemma sliceTo_prefix: "\<exists>n. sliceTo xs e = take n xs"
  by (cases e) (auto simp: sliceTo_def intro: exI [of _ "length xs"])

lemma finalResults_alt:
  "finalResults cfg scored =
     sliceTo (sort_key (\<lambda>s. - score s) (filter (\<lambda>s. score s \<ge> threshold cfg) scored)) (topK cfg)"
  by (simp add: finalResults_def Let_def)

lemma finalResults_set:
  "set (finalResults cfg scored) \<subseteq> {c \<in> set scored. score c \<ge> threshold cfg}"
  unfolding finalResults_alt using sliceTo_set [of _ "topK cfg"] by fastforce

lemma finalResults_sorted:
  "sorted_wrt (\<lambda>a b. score a \<ge> score b) (finalResults cfg scored)"
proof -
  let ?xs = "sort_key (\<lambda>s. - score s) (filter (\<lambda>s. score s \<ge> threshold cfg) scored)"
  have "sorted (map (\<lambda>s. - score s) ?xs)" by (rule sorted_sort_key)
  then have s: "sorted_wrt (\<lambda>a b. score a \<ge> score b) ?xs"
    by (simp add: sorted_map sorted_wrt_iff_nth_less)
  obtain n where "finalResults cfg scored = take n ?xs"
    unfolding finalResults_alt using sliceTo_prefix by blast
  with s show ?thesis
    by (simp add: sorted_wrt_take)
qed

lemma finalResults_length:
  "topK cfg = Some k \<Longrightarrow> 0 \<le> k \<Longrightarrow> int (length (finalResults cfg scored)) \<le> k"
  unfolding finalResults_alt using sliceTo_length by simp

lemma finalResults_empty:
  "\<forall>c \<in> set scored. score c < threshold cfg \<Longrightarrow> finalResults cfg scored = []"
proof -
  assume "\<forall>c \<in> set scored. score c < threshold cfg"
  then have "filter (\<lambda>s. score s \<ge> threshold cfg) scored = []"
    by (auto simp: filter_empty_conv)
  then show ?thesis
    unfolding finalResults_alt by (simp add: sliceTo_def split: option.splits)
qed

lemma performSearch_Inr:
  assumes "performSearch backend vision fetched input s = (Inr res, s')"
  shows "(\<exists>content. vision = NotFurniture content \<and> results res = [] \<and> \<not> resultIsFurniture res
            \<and> considered res = 0 \<and> s' = s)
       \<or> (\<exists>analysis visionDescription catalog apiKey queryEmbedding productEmbeddings scored s1.
            vision = IsFurniture analysis visionDescription \<and> fetched = Inr catalog
          \<and> finalEmbeddingApiKey input (visionProvider (mergeConfig (config input)))
               (fst (embeddingSettings (mergeConfig (config input)))) = Inr apiKey
          \<and> createQueryEmbedding backend (combinedQueryText analysis visionDescription (queryText input))
               (fst (embeddingSettings (mergeConfig (config input)))) apiKey
               (Some (snd (embeddingSettings (mergeConfig (config input))))) s = (Inr queryEmbedding, s1)
          \<and> getProductEmbeddings backend
               (candidates (mergeConfig (config input)) (priceRangeFilter (mergeConfig (config input)) catalog))
               (fst (embeddingSettings (mergeConfig (config input)))) apiKey
               (Some (snd (embeddingSettings (mergeConfig (config input))))) s1 = (Inr productEmbeddings, s')
          \<and> scoreCandidates (mergeConfig (config input)) analysis
               (combinedQueryText analysis visionDescription (queryText input)) (queryText input)
               (priceRangeFilter (mergeConfig (config input)) catalog) queryEmbedding productEmbeddings
               = Inr scored
          \<and> results res = finalResults (mergeConfig (config input)) scored
          \<and> resultIsFurniture res
          \<and> totalProducts res = length (priceRangeFilter (mergeConfig (config input)) catalog)
          \<and> considered res = length (candidates (mergeConfig (config input))
                 (priceRangeFilter (mergeConfig (config input)) catalog)))"
  using assms
  by (auto simp: performSearch_def Let_def split: sum.splits VisionOutcome.splits prod.splits)

lemma scoreProduct_isl:
  "isl (scoreProduct cfg analysis combined target products qe embs p)
     = isl (typeMatchScore (analysisType analysis) p)"
  by (simp add: scoreProduct_def Let_def split: sum.splits)

lemma performSearch_furniture:
  assumes "finalEmbeddingApiKey input (visionProvider (mergeConfig (config input)))
             (fst (embeddingSettings (mergeConfig (config input)))) = Inr apiKey"
    and "createAIProviderClient (visionProvider (mergeConfig (config input))) = Inr visionClient"
    and "createQueryEmbedding backend (combinedQueryText analysis visionDescription (queryText input))
           (fst (embeddingSettings (mergeConfig (config input)))) apiKey
           (Some (snd (embeddingSettings (mergeConfig (config input))))) s = (Inr queryEmbedding, s1)"
    and "getProductEmbeddings backend
           (candidates (mergeConfig (config input)) (priceRangeFilter (mergeConfig (config input)) catalog))
           (fst (embeddingSettings (mergeConfig (config input)))) apiKey
           (Some (snd (embeddingSettings (mergeConfig (config input))))) s1 = (Inr productEmbeddings, s2)"
    and "scoreCandidates (mergeConfig (config input)) analysis
           (combinedQueryText analysis visionDescription (queryText input)) (queryText input)
           (priceRangeFilter (mergeConfig (config input)) catalog) queryEmbedding productEmbeddings
           = Inr scored"
  shows "\<not> isl (fst (performSearch backend (IsFurniture analysis visionDescription) (Inr catalog) input s))
     \<and> snd (performSearch backend (IsFurniture analysis visionDescription) (Inr catalog) input s) = s2
     \<and> results (projr (fst (performSearch backend (IsFurniture analysis visionDescription) (Inr catalog) input s)))
         = finalResults (mergeConfig (config input)) scored"
  using assms unfolding performSearch_def Let_def
  by (cases "embeddingSettings (mergeConfig (config input))") simp

text \<open>
  C8. The ranked list \<^const>\<open>finalResults\<close> has at most \<open>topK\<close> items (for a
  non-negative \<open>topK\<close>, as the request schema guarantees), every item in it is a scored
  candidate whose score reaches the minimum score, it is ordered by descending score, and
  when every candidate is below the minimum score it is the empty list.
\<close>

theorem C8_ranked_output:
  "(\<forall>k. topK cfg = Some k \<and> 0 \<le> k \<longrightarrow> int (length (finalResults cfg scored)) \<le> k)
   \<and> (\<forall>r \<in> set (finalResults cfg scored). r \<in> set scored \<and> threshold cfg \<le> score r)
   \<and> sorted_wrt (\<lambda>a b. score a \<ge> score b) (finalResults cfg scored)
   \<and> ((\<forall>c \<in> set scored. score c < threshold cfg) \<longrightarrow> finalResults cfg scored = [])"
  using finalResults_length [of cfg _ scored] finalResults_set [of cfg scored]
    finalResults_sorted [of cfg scored] finalResults_empty [of scored cfg]
  by blast

text \<open>
  C8 on four scored candidates with \<open>topK = 2\<close> and \<open>minScore = 0.5\<close>, and on two
  candidates that are both below the minimum.
\<close>

theorem C8_ranked_output_witness:
  "topK strictConfig = Some 2 \<and> threshold strictConfig = 0.5
   \<and> map score (finalResults strictConfig
        [scoredAt ''a'' 0.6, scoredAt ''b'' 0.4, scoredAt ''c'' 0.9, scoredAt ''d'' 0.7]) = [0.9, 0.7]
   \<and> int (length (finalResults strictConfig
        [scoredAt ''a'' 0.6, scoredAt ''b'' 0.4, scoredAt ''c'' 0.9, scoredAt ''d'' 0.7])) \<le> 2
   \<and> finalResults strictConfig [scoredAt ''a'' 0.2, scoredAt ''b'' 0.4] = []"
proof -
  have cfg: "topK strictConfig = Some 2" "threshold strictConfig = 0.5"
    by (simp_all add: strictConfig_def mergeConfig_def spread_def noKeys_def defaultConfig_def threshold_def)
  have low: "\<forall>c \<in> set [scoredAt ''a'' 0.2, scoredAt ''b'' 0.4]. score c < threshold strictConfig"
    by (simp add: cfg scoredAt_def)
  have ranked: "map score (finalResults strictConfig
        [scoredAt ''a'' 0.6, scoredAt ''b'' 0.4, scoredAt ''c'' 0.9, scoredAt ''d'' 0.7]) = [0.9, 0.7]"
    by (simp add: finalResults_alt cfg scoredAt_def sliceTo_def)
  from C8_ranked_output [of strictConfig "[scoredAt ''a'' 0.6, scoredAt ''b'' 0.4, scoredAt ''c'' 0.9, scoredAt ''d'' 0.7]"]
    C8_ranked_output [of strictConfig "[scoredAt ''a'' 0.2, scoredAt ''b'' 0.4]"] cfg low ranked
  show ?thesis by simp
qed

lemma sliceTo_nonneg: "0 \<le> m \<Longrightarrow> sliceTo xs (Some m) = take (nat m) xs"
  by (simp add: sliceTo_def)

lemma mapOrThrow_total:
  "(\<And>x. x \<in> set xs \<Longrightarrow> \<not> isl (f x)) \<Longrightarrow> \<not> isl (mapOrThrow f xs)"
proof (induction xs)
  case Nil
  then show ?case by simp
next
  case (Cons x xs)
  then have "\<not> isl (f x)" "\<not> isl (mapOrThrow f xs)" by simp_all
  then show ?case by (auto split: sum.splits)
qed

lemma scoreProduct_untyped:
  "analysisType analysis = None
   \<Longrightarrow> \<not> isl (scoreProduct cfg analysis combined target products qe embs p)"
  by (simp add: scoreProduct_def typeMatchScore_def Let_def)

lemma scoreCandidates_untyped:
  "analysisType analysis = None
   \<Longrightarrow> \<not> isl (scoreCandidates cfg analysis combined qt products qe embs)"
  unfolding scoreCandidates_def by (rule mapOrThrow_total) (rule scoreProduct_untyped)

section \<open>Properties of scoring\<close>

lemma map_of_similarTypes_inherited:
  "k \<in> set objectPrototypeKeys \<Longrightarrow> map_of similarTypes k = None"
  unfolding objectPrototypeKeys_def similarTypes_def by (elim disjE | simp)+

lemma similar_lookup:
  "(case (case similarTypesGet q of
            Undefined \<Rightarrow> similarTypesGet qs
          | found \<Rightarrow> found) of
      OwnArray similar \<Rightarrow> f similar
    | Undefined \<Rightarrow> u
    | Inherited \<Rightarrow> e)
   = (if q \<in> set objectPrototypeKeys \<or> (map_of similarTypes q = None \<and> qs \<in> set objectPrototypeKeys)
      then e
      else (case (case map_of similarTypes q of
                    Some related \<Rightarrow> Some related
                  | None \<Rightarrow> map_of similarTypes qs) of
              Some related \<Rightarrow> f related
            | None \<Rightarrow> u))"
proof (cases "map_of similarTypes q")
  case (Some related)
  then have "q \<notin> set objectPrototypeKeys"
    using map_of_similarTypes_inherited by fastforce
  with Some show ?thesis by (simp add: similarTypesGet_def)
next
  case None
  note q = None
  show ?thesis
  proof (cases "q \<in> set objectPrototypeKeys")
    case True
    with q show ?thesis by (simp add: similarTypesGet_def)
  next
    case False
    note nq = False
    show ?thesis
    proof (cases "map_of similarTypes qs")
      case (Some related)
      then have "qs \<notin> set objectPrototypeKeys"
        using map_of_similarTypes_inherited by fastforce
      with Some q nq show ?thesis by (simp add: similarTypesGet_def)
    next
      case None
      with q nq show ?thesis by (simp add: similarTypesGet_def)
    qed
  qed
qed

lemma typeMatchScore_ladder:
  assumes "t \<noteq> []"
  shows "typeMatchScore (Some t) p =
     (if exactTypeMatch t p then Inr 1
      else if partialTypeMatch t p then Inr 0.8
      else if textTypeMatch t p then Inr 0.6
      else if inheritedName t then Inl (TypeError ''similar.some is not a function'')
      else if synonymTypeMatch t p then Inr 0.4
      else Inr 0)"
  using assms
  unfolding typeMatchScore_def exactTypeMatch_def partialTypeMatch_def textTypeMatch_def
    inheritedName_def synonymTypeMatch_def relatedTerms_def queryTypeOf_def productTypeOf_def
    Let_def similar_lookup
  by (simp split: option.splits)

lemma bench_facts:
  "queryTypeOf ''bench'' = ''bench''" "stripTrailingS ''bench'' = ''bench''"
  "trim (toLowerCase ''stool'') = ''stool''" "stripTrailingS ''stool'' = ''stool''"
  "\<not> includesStr ''stool'' ''bench''" "\<not> includesStr ''bench'' ''stool''"
  "\<not> inheritedName ''bench''"
  "relatedTerms ''bench'' = Some [''bench'', ''stool'', ''seat'', ''ottoman'']"
  "includesStr ''stool'' ''stool''"
  by code_simp+

text \<open>
  C2 (as amended). For a non-empty query type the type-match signal follows this ladder,
  on the lower-cased, trimmed type fields: equal, or equal after dropping one final
  \<open>s\<close> from either side, gives 1.0; otherwise a substring match in either direction
  between the type fields, the query also tried without its final \<open>s\<close>, gives 0.8;
  otherwise the query type, or the query without its final \<open>s\<close>, occurring in the
  item's title or description gives 0.6; otherwise, for a query type that is not the name
  of an inherited object member, a related term of the synonym table (looked up under the
  query type, then under the query without its final \<open>s\<close>) occurring, with or without
  its final \<open>s\<close>, in the item's type, title or description gives 0.4, and no such
  occurrence gives 0.0. Equal type fields give 1.0, and query type \<open>bench\<close> against
  product type \<open>stool\<close> gives 0.4 when neither title nor description contains
  \<open>bench\<close>.
\<close>

theorem C2_typeMatch_ladder:
  assumes "t \<noteq> []"
  shows "(exactTypeMatch t p \<longrightarrow> typeMatchScore (Some t) p = Inr 1)
    \<and> (\<not> exactTypeMatch t p \<and> partialTypeMatch t p \<longrightarrow> typeMatchScore (Some t) p = Inr 0.8)
    \<and> (\<not> exactTypeMatch t p \<and> \<not> partialTypeMatch t p \<and> textTypeMatch t p \<longrightarrow>
          typeMatchScore (Some t) p = Inr 0.6)
    \<and> (\<not> exactTypeMatch t p \<and> \<not> partialTypeMatch t p \<and> \<not> textTypeMatch t p
          \<and> \<not> inheritedName t \<and> synonymTypeMatch t p \<longrightarrow> typeMatchScore (Some t) p = Inr 0.4)
    \<and> (\<not> exactTypeMatch t p \<and> \<not> partialTypeMatch t p \<and> \<not> textTypeMatch t p
          \<and> \<not> inheritedName t \<and> \<not> synonymTypeMatch t p \<longrightarrow> typeMatchScore (Some t) p = Inr 0)
    \<and> (type p = t \<longrightarrow> typeMatchScore (Some t) p = Inr 1)
    \<and> (t = ''bench'' \<and> type p = ''stool'' \<and> \<not> includesStr (toLowerCase (title p)) ''bench''
          \<and> \<not> includesStr (toLowerCase (description p)) ''bench'' \<longrightarrow>
          typeMatchScore (Some t) p = Inr 0.4)"
proof -
  have same: "exactTypeMatch t p" if "type p = t"
    using that by (simp add: exactTypeMatch_def queryTypeOf_def productTypeOf_def)
  have stool: "typeMatchScore (Some t) p = Inr 0.4"
    if "t = ''bench''" "type p = ''stool''" "\<not> includesStr (toLowerCase (title p)) ''bench''"
      "\<not> includesStr (toLowerCase (description p)) ''bench''"
  proof -
    have pt: "productTypeOf p = ''stool''"
      using that(2) by (simp add: productTypeOf_def bench_facts)
    have "\<not> exactTypeMatch t p" "\<not> partialTypeMatch t p" "\<not> textTypeMatch t p" "\<not> inheritedName t"
      using that by (simp_all add: exactTypeMatch_def partialTypeMatch_def textTypeMatch_def pt bench_facts)
    moreover have "synonymTypeMatch t p"
      using that by (simp add: synonymTypeMatch_def synonymOccurs_def pt bench_facts)
    ultimately show ?thesis
      using typeMatchScore_ladder [OF assms, of p] by simp
  qed
  from typeMatchScore_ladder [OF assms, of p] same stool show ?thesis by auto
qed

text \<open>The amended C2 on one item for each rung.\<close>

theorem C2_typeMatch_ladder_witness:
  "typeMatchScore (Some ''Bench '') oakBench = Inr 1
   \<and> typeMatchScore (Some ''bench'') storageBench = Inr 0.8
   \<and> typeMatchScore (Some ''bench'') gardenSeat = Inr 0.6
   \<and> typeMatchScore (Some ''bench'') stoolItem = Inr 0.4
   \<and> typeMatchScore (Some ''bench'') deskLamp = Inr 0
   \<and> typeMatchScore (Some ''chair'') chairItem = Inr 1
   \<and> typeMatchScore (Some ''sofas'') couchItem = Inr 0.4"
proof -
  have r1: "exactTypeMatch ''Bench '' oakBench" by code_simp
  have r2: "\<not> exactTypeMatch ''bench'' storageBench" "partialTypeMatch ''bench'' storageBench"
    by code_simp+
  have r3: "\<not> exactTypeMatch ''bench'' gardenSeat" "\<not> partialTypeMatch ''bench'' gardenSeat"
    "textTypeMatch ''bench'' gardenSeat" by code_simp+
  have r4: "type stoolItem = ''stool''" "\<not> includesStr (toLowerCase (title stoolItem)) ''bench''"
    "\<not> includesStr (toLowerCase (description stoolItem)) ''bench''" by code_simp+
  have r5: "\<not> exactTypeMatch ''bench'' deskLamp" "\<not> partialTypeMatch ''bench'' deskLamp"
    "\<not> textTypeMatch ''bench'' deskLamp" "\<not> inheritedName ''bench''"
    "\<not> synonymTypeMatch ''bench'' deskLamp" by code_simp+
  have r6: "type chairItem = ''chair''" by (simp add: chairItem_def)
  have r7: "\<not> exactTypeMatch ''sofas'' couchItem" "\<not> partialTypeMatch ''sofas'' couchItem"
    "\<not> textTypeMatch ''sofas'' couchItem" "\<not> inheritedName ''sofas''"
    "synonymTypeMatch ''sofas'' couchItem" by code_simp+
  from C2_typeMatch_ladder [of "''Bench ''" oakBench] r1
  have a: "typeMatchScore (Some ''Bench '') oakBench = Inr 1" by simp
  from C2_typeMatch_ladder [of "''bench''" storageBench] r2
  have b: "typeMatchScore (Some ''bench'') storageBench = Inr 0.8" by simp
  from C2_typeMatch_ladder [of "''bench''" gardenSeat] r3
  have c: "typeMatchScore (Some ''bench'') gardenSeat = Inr 0.6" by simp
  from C2_typeMatch_ladder [of "''bench''" stoolItem] r4
  have d: "typeMatchScore (Some ''bench'') stoolItem = Inr 0.4" by simp
  from C2_typeMatch_ladder [of "''bench''" deskLamp] r5
  have e: "typeMatchScore (Some ''bench'') deskLamp = Inr 0" by simp
  from C2_typeMatch_ladder [of "''chair''" chairItem] r6
  have f: "typeMatchScore (Some ''chair'') chairItem = Inr 1" by simp
  from C2_typeMatch_ladder [of "''sofas''" couchItem] r7
  have g: "typeMatchScore (Some ''sofas'') couchItem = Inr 0.4" by simp
  from a b c d e f g show ?thesis by simp
qed

text \<open>
  A query type that names an inherited member of the table object, here
  \<^verbatim>\<open>constructor\<close>, reaches the synonym rung with a value that has no \<^verbatim>\<open>some\<close>
  method: the scoring callback throws.
\<close>

lemma typeMatchScore_inherited_example:
  "typeMatchScore (Some ''constructor'') oakBench = Inl (TypeError ''similar.some is not a function'')"
  by code_simp

text \<open>
  C2 as stated fails twice. Query \<open>chairs\<close> against type \<open>chair\<close>: the fields are
  not equal and one contains the other, which the stated ladder scores 0.8, but the code
  gives 1.0. Query \<open>bench\<close> against type \<open>stool\<close> with \<open>bench\<close> in the title:
  the code gives 0.6, not 0.4.
\<close>

theorem C2_counterexample:
  "type chairItem \<noteq> ''chairs'' \<and> includesStr ''chairs'' (type chairItem)
   \<and> typeMatchScore (Some ''chairs'') chairItem = Inr 1
   \<and> typeMatchScore (Some ''chairs'') chairItem \<noteq> Inr 0.8
   \<and> type benchHeightStool = ''stool''
   \<and> typeMatchScore (Some ''bench'') benchHeightStool = Inr 0.6
   \<and> typeMatchScore (Some ''bench'') benchHeightStool \<noteq> Inr 0.4"
  by code_simp

lemma foldl_price_sum:
  "foldl (\<lambda>sum p. sum + price p) a xs = a + sum_list (map price xs)"
  by (induction xs arbitrary: a) simp_all

lemma priceScore_target:
  "priceProximityWeight cfg = Some w \<Longrightarrow> 0 < w \<Longrightarrow>
   priceScore cfg (Some t) products p =
     (if max (price p) t > 0 then 1 - min (\<bar>price p - t\<bar> / max (price p) t) 1 else 0)"
  by (simp add: priceScore_def Let_def)

lemma priceScore_mean:
  "priceProximityWeight cfg = Some w \<Longrightarrow> 0 < w \<Longrightarrow>
   priceScore cfg None products p =
     (if meanPrice products > 0 then 1 - min (\<bar>price p - meanPrice products\<bar> / meanPrice products) 0.5
      else 0.5)"
  by (simp add: priceScore_def Let_def foldl_price_sum meanPrice_def)

lemma scoreProduct_explanation:
  assumes "scoreProduct cfg analysis combined target products qe embs p = Inr sp"
  shows "\<exists>typeMatch. typeMatchScore (analysisType analysis) p = Inr typeMatch
     \<and> explanation sp =
        [(''typeMatch'', typeMatch),
         (''categoryMatch'', categoryMatchScore (analysisCategory analysis) p),
         (''semantic'', (case embs (p_id p) of Some e \<Rightarrow> cosineSimilarity qe e | None \<Rightarrow> 0)),
         (''lexical'', computeLexicalScore (toLowerCase combined)
             (toLowerCase (join '' '' [title p, category p, type p, description p])))]
        @ (if (case priceProximityWeight cfg of Some w \<Rightarrow> w | None \<Rightarrow> 0.2) > 0
           then [(''price'', priceScore cfg target products p)] else [])"
  using assms by (auto simp: scoreProduct_def Let_def split: sum.splits)

lemma mapOrThrow_mem:
  "mapOrThrow f xs = Inr ys \<Longrightarrow> y \<in> set ys \<Longrightarrow> \<exists>x \<in> set xs. f x = Inr y"
proof -
  assume a: "mapOrThrow f xs = Inr ys" and "y \<in> set ys"
  then obtain i where i: "i < length ys" "ys ! i = y" by (auto simp: in_set_conv_nth)
  from mapOrThrow_Inr [OF a] i have "i < length xs" "f (xs ! i) = Inr y" by auto
  then show ?thesis using nth_mem by blast
qed

text \<open>
  C3 (as amended). With a price weight above zero, every scored candidate carries a price
  sub-score that is \<open>1 - min (|price - target| / max price target) 1\<close> when a target price
  is extracted from the user text (0 when that maximum is not positive), and otherwise
  \<open>1 - min (|price - mean| / mean) 0.5\<close> where \<open>mean\<close> is the mean price of the whole
  price-filtered catalog \<open>products\<close>, before the \<open>maxCandidates\<close> cap (0.5 when the mean is
  not positive).
\<close>

theorem C3_price_signal:
  assumes "scoreCandidates cfg analysis combined qt products qe embs = Inr scored"
    and "sp \<in> set scored"
    and "priceProximityWeight cfg = Some w" and "0 < w"
  shows "product sp \<in> set (candidates cfg products)
     \<and> (''price'', priceScore cfg (targetPrice qt) products (product sp)) \<in> set (explanation sp)
     \<and> (\<forall>t. targetPrice qt = Some t \<longrightarrow>
           priceScore cfg (targetPrice qt) products (product sp) =
             (if max (price (product sp)) t > 0
              then 1 - min (\<bar>price (product sp) - t\<bar> / max (price (product sp)) t) 1 else 0))
     \<and> (targetPrice qt = None \<longrightarrow>
           priceScore cfg (targetPrice qt) products (product sp) =
             (if meanPrice products > 0
              then 1 - min (\<bar>price (product sp) - meanPrice products\<bar> / meanPrice products) 0.5
              else 0.5))"
proof -
  let ?f = "scoreProduct cfg analysis combined (targetPrice qt) products qe embs"
  from assms(1) have "mapOrThrow ?f (candidates cfg products) = Inr scored"
    by (simp add: scoreCandidates_def)
  from mapOrThrow_mem [OF this assms(2)] obtain p
    where p: "p \<in> set (candidates cfg products)" "?f p = Inr sp" by blast
  from scoreProduct_product [OF p(2)] have sp: "product sp = p" .
  from scoreProduct_explanation [OF p(2)] assms(3,4)
  have "(''price'', priceScore cfg (targetPrice qt) products p) \<in> set (explanation sp)" by auto
  with p(1) sp priceScore_target [OF assms(3,4)] priceScore_mean [OF assms(3,4)]
  show ?thesis by simp
qed

lemma price_cheapNo: "price \<circ> cheapNo = (\<lambda>n. 100)"
  by (simp add: fun_eq_iff cheapNo_def)

lemma elevenProducts_facts:
  "length elevenProducts = 11" "meanPrice elevenProducts = 200"
  "candidates capTen elevenProducts = map cheapNo [0..<10]"
  "meanPrice (candidates capTen elevenProducts) = 100"
  by (simp_all add: elevenProducts_def meanPrice_def candidates_def capTen_def defaultConfig_def
        sliceTo_def dearItem_def price_cheapNo sum_list_triv)

lemma meanPrice_cheap: "meanPrice (map cheapNo [0..<10]) = 100"
  by (simp add: meanPrice_def price_cheapNo sum_list_triv)

text \<open>
  The amended C3 on a catalog of ten items at 100 and one at 1200 with
  \<open>maxCandidates = 10\<close>: without a target the first candidate scores 1/2 against the
  catalog mean 200; with the target 150 it scores 2/3.
\<close>

theorem C3_price_signal_witness:
  "(''price'', 1 / 2) \<in> set (explanation
      (hd (projr (scoreCandidates capTen untypedAnalysis [] None elevenProducts [] Map.empty))))
   \<and> targetPrice (Some ''under $150 please'') = Some 150
   \<and> targetPrice (Some ''about 150 Dollars'') = Some 150
   \<and> (''price'', 2 / 3) \<in> set (explanation
      (hd (projr (scoreCandidates capTen untypedAnalysis [] (Some ''under $150 please'') elevenProducts
         [] Map.empty))))"
proof -
  let ?mean = "scoreCandidates capTen untypedAnalysis [] None elevenProducts [] Map.empty"
  let ?target = "scoreCandidates capTen untypedAnalysis [] (Some ''under $150 please'') elevenProducts
         [] Map.empty"
  have w: "priceProximityWeight capTen = Some 0.2" "(0::real) < 0.2"
    by (simp_all add: capTen_def defaultConfig_def)
  have t: "targetPrice (Some ''under $150 please'') = Some 150"
    "targetPrice (Some ''about 150 Dollars'') = Some 150" "targetPrice None = None"
    by code_simp+
  have "\<not> isl ?mean" "\<not> isl ?target"
    by (rule scoreCandidates_untyped, simp add: untypedAnalysis_def)+
  then have run: "?mean = Inr (projr ?mean)" "?target = Inr (projr ?target)" by simp_all
  have p1: "map product (projr ?mean) = map cheapNo [0..<10]"
    using scoreCandidates_products [OF run(1)] by (simp only: elevenProducts_facts)
  have p2: "map product (projr ?target) = map cheapNo [0..<10]"
    using scoreCandidates_products [OF run(2)] by (simp only: elevenProducts_facts)
  from p1 have ne1: "projr ?mean \<noteq> []" by auto
  from p2 have ne2: "projr ?target \<noteq> []" by auto
  from p1 ne1 have h1: "product (hd (projr ?mean)) = cheapNo 0"
    by (cases "projr ?mean") (simp_all add: upt_rec)
  from p2 ne2 have h2: "product (hd (projr ?target)) = cheapNo 0"
    by (cases "projr ?target") (simp_all add: upt_rec)
  have v1: "(if meanPrice elevenProducts > 0
              then 1 - min (\<bar>price (cheapNo 0) - meanPrice elevenProducts\<bar> / meanPrice elevenProducts) 0.5
              else 0.5) = 1 / 2"
    by (simp add: elevenProducts_facts cheapNo_def)
  have v2: "(if max (price (cheapNo 0)) 150 > 0
              then 1 - min (\<bar>price (cheapNo 0) - 150\<bar> / max (price (cheapNo 0)) 150) 1 else 0) = 2 / 3"
    by (simp add: cheapNo_def)
  note m = C3_price_signal [OF run(1) hd_in_set [OF ne1] w, unfolded h1 t(3)]
  note m1 = m [THEN conjunct2, THEN conjunct1]
  note m2 = m [THEN conjunct2, THEN conjunct2, THEN conjunct2, rule_format, OF refl]
  from m2 v1 have "priceScore capTen None elevenProducts (cheapNo 0) = 1 / 2"
    by (simp only:)
  with m1 have a: "(''price'', 1 / 2) \<in> set (explanation (hd (projr ?mean)))"
    by (simp only:)
  note g = C3_price_signal [OF run(2) hd_in_set [OF ne2] w, unfolded h2 t(1)]
  note g1 = g [THEN conjunct2, THEN conjunct1]
  note g2 = g [THEN conjunct2, THEN conjunct2, THEN conjunct1, rule_format, OF refl]
  from g2 v2 have "priceScore capTen (Some 150) elevenProducts (cheapNo 0) = 2 / 3"
    by (simp only:)
  with g1 have b: "(''price'', 2 / 3) \<in> set (explanation (hd (projr ?target)))"
    by (simp only:)
  from a b t(1,2) show ?thesis by (intro conjI)
qed

text \<open>
  C3 as stated fails: on that catalog the candidates are the ten items at 100, their mean
  is 100, so the stated formula gives 1 for the first candidate, but the code compares
  with the mean of all eleven items and gives 1/2.
\<close>

theorem C3_counterexample:
  "candidates capTen elevenProducts = map cheapNo [0..<10]
   \<and> cheapNo 0 \<in> set (candidates capTen elevenProducts)
   \<and> targetPrice None = None
   \<and> meanPrice (candidates capTen elevenProducts) = 100
   \<and> 1 - min (\<bar>price (cheapNo 0) - meanPrice (candidates capTen elevenProducts)\<bar>
               / meanPrice (candidates capTen elevenProducts)) 0.5 = 1
   \<and> priceScore capTen (targetPrice None) elevenProducts (cheapNo 0) = 1 / 2"
proof -
  have w: "priceProximityWeight capTen = Some 0.2" "(0::real) < 0.2"
    by (simp_all add: capTen_def defaultConfig_def)
  have t: "targetPrice None = None" by (simp add: targetPrice_def)
  have price: "price (cheapNo 0) = 100" by (simp add: cheapNo_def)
  have mem: "cheapNo 0 \<in> set (map cheapNo [0..<10])" by (simp add: upt_rec)
  have "priceScore capTen None elevenProducts (cheapNo 0) = 1 / 2"
    using priceScore_mean [OF w, of elevenProducts "cheapNo 0"]
    by (simp add: elevenProducts_facts price)
  with t price mem show ?thesis
    by (simp add: elevenProducts_facts meanPrice_cheap)
qed

text \<open>
  C4 (as amended). The explanation of every scored candidate lists \<open>typeMatch\<close>,
  \<open>categoryMatch\<close>, \<open>semantic\<close> and \<open>lexical\<close>, in this order and with the values of
  these sub-scores, whatever the weights; \<open>price\<close> follows exactly when the price weight
  (\<open>priceProximityWeight\<close>, 0.2 when undefined) is above zero.
\<close>

theorem C4_explanation_trace:
  assumes "scoreProduct cfg analysis combined target products qe embs p = Inr sp"
  shows "map fst (explanation sp) =
           [''typeMatch'', ''categoryMatch'', ''semantic'', ''lexical'']
           @ (if (case priceProximityWeight cfg of Some w \<Rightarrow> w | None \<Rightarrow> 0.2) > 0
              then [''price''] else [])
     \<and> typeMatchScore (analysisType analysis) p = Inr (snd (explanation sp ! 0))
     \<and> snd (explanation sp ! 1) = categoryMatchScore (analysisCategory analysis) p
     \<and> snd (explanation sp ! 2) = (case embs (p_id p) of Some e \<Rightarrow> cosineSimilarity qe e | None \<Rightarrow> 0)
     \<and> snd (explanation sp ! 3) = computeLexicalScore (toLowerCase combined)
            (toLowerCase (join '' '' [title p, category p, type p, description p]))
     \<and> ((case priceProximityWeight cfg of Some w \<Rightarrow> w | None \<Rightarrow> 0.2) > 0 \<longrightarrow>
            snd (explanation sp ! 4) = priceScore cfg target products p)"
proof -
  from scoreProduct_explanation [OF assms] obtain typeMatch
    where tm: "typeMatchScore (analysisType analysis) p = Inr typeMatch"
      and ex: "explanation sp =
        [(''typeMatch'', typeMatch),
         (''categoryMatch'', categoryMatchScore (analysisCategory analysis) p),
         (''semantic'', (case embs (p_id p) of Some e \<Rightarrow> cosineSimilarity qe e | None \<Rightarrow> 0)),
         (''lexical'', computeLexicalScore (toLowerCase combined)
             (toLowerCase (join '' '' [title p, category p, type p, description p])))]
        @ (if (case priceProximityWeight cfg of Some w \<Rightarrow> w | None \<Rightarrow> 0.2) > 0
           then [(''price'', priceScore cfg target products p)] else [])"
    by blast
  show ?thesis
    unfolding ex using tm by simp
qed

text \<open>
  The amended C4 with the image and text weights set to zero: all five names are listed.
\<close>

theorem C4_explanation_trace_witness:
  "map fst (explanation (projr (scoreProduct noImageWeight untypedAnalysis [] None [oakBench] [] Map.empty oakBench)))
     = [''typeMatch'', ''categoryMatch'', ''semantic'', ''lexical'', ''price'']
   \<and> typeMatchScore (analysisType untypedAnalysis) oakBench = Inr 0
   \<and> snd (explanation (projr (scoreProduct noImageWeight untypedAnalysis [] None [oakBench] [] Map.empty oakBench)) ! 4)
     = 1"
proof -
  let ?run = "scoreProduct noImageWeight untypedAnalysis [] None [oakBench] [] Map.empty oakBench"
  have "\<not> isl ?run"
    by (rule scoreProduct_untyped) (simp add: untypedAnalysis_def)
  then have run: "?run = Inr (projr ?run)" by simp
  have w: "priceProximityWeight noImageWeight = Some 0.2"
    by (simp add: noImageWeight_def defaultConfig_def)
  have ps: "priceScore noImageWeight None [oakBench] oakBench = 1"
    by (simp add: priceScore_def w oakBench_def)
  have tm: "typeMatchScore (analysisType untypedAnalysis) oakBench = Inr 0"
    by (simp add: typeMatchScore_def untypedAnalysis_def)
  from C4_explanation_trace [OF run] w ps tm show ?thesis by simp
qed

text \<open>
  C4 as stated fails: with \<open>priceProximityWeight = 0\<close> the explanation has no \<open>price\<close>
  entry.
\<close>

theorem C4_counterexample:
  "priceProximityWeight noPriceWeight = Some 0
   \<and> \<not> isl (scoreProduct noPriceWeight untypedAnalysis [] None [oakBench] [] Map.empty oakBench)
   \<and> map fst (explanation (projr (scoreProduct noPriceWeight untypedAnalysis [] None [oakBench] [] Map.empty oakBench)))
     = [''typeMatch'', ''categoryMatch'', ''semantic'', ''lexical'']
   \<and> ''price'' \<notin> fst ` set (explanation (projr
         (scoreProduct noPriceWeight untypedAnalysis [] None [oakBench] [] Map.empty oakBench)))"
  by (simp add: scoreProduct_def typeMatchScore_def untypedAnalysis_def noPriceWeight_def
        defaultConfig_def Let_def)

section \<open>Properties of the candidate cap\<close>

lemma candidates_cap:
  assumes "maxCandidates cfg = Some m" and "0 \<le> m"
    and "scoreCandidates cfg analysis combined qt products qe embs = Inr scored"
  shows "candidates cfg products = take (nat m) products
     \<and> map product scored = take (nat m) products
     \<and> length scored = min (nat m) (length products)
     \<and> (\<forall>r \<in> set (finalResults cfg scored). product r \<in> set (take (nat m) products))
     \<and> (distinct products \<longrightarrow>
          (\<forall>i. nat m \<le> i \<and> i < length products \<longrightarrow>
                products ! i \<notin> product ` set (finalResults cfg scored)))"
proof -
  have c: "candidates cfg products = take (nat m) products"
    using assms(1,2) by (simp add: candidates_def sliceTo_nonneg)
  have mp: "map product scored = take (nat m) products"
    using scoreCandidates_products [OF assms(3)] c by simp
  then have "length (map product scored) = length (take (nat m) products)" by simp
  then have len: "length scored = min (nat m) (length products)" by (simp add: min.commute)
  have sub: "\<forall>r \<in> set (finalResults cfg scored). product r \<in> set (take (nat m) products)"
  proof
    fix r assume "r \<in> set (finalResults cfg scored)"
    then have "r \<in> set scored" using finalResults_set by blast
    then have "product r \<in> set (map product scored)" by simp
    then show "product r \<in> set (take (nat m) products)" by (simp only: mp)
  qed
  have rest: "\<forall>i. nat m \<le> i \<and> i < length products \<longrightarrow>
                products ! i \<notin> product ` set (finalResults cfg scored)" if d: "distinct products"
  proof (intro allI impI notI)
    fix i assume i: "nat m \<le> i \<and> i < length products"
      and "products ! i \<in> product ` set (finalResults cfg scored)"
    with sub have "products ! i \<in> set (take (nat m) products)" by auto
    then obtain j where j: "j < length (take (nat m) products)" "take (nat m) products ! j = products ! i"
      by (auto simp: in_set_conv_nth)
    then have "j < nat m" "j < length products" "products ! j = products ! i" by simp_all
    with d i have "j = i" by (simp add: nth_eq_iff_index_eq)
    with \<open>j < nat m\<close> i show False by simp
  qed
  from c mp len sub rest show ?thesis by blast
qed

text \<open>
  C9. In a search that reaches scoring, with \<open>maxCandidates = m\<close> (non-negative), the
  number of items considered is \<open>min m n\<close> for the \<open>n\<close> items the price-range filter
  leaves of the catalog; the items scored are the first \<open>m\<close> items of that filtered
  catalog, in order, and the ranked results are cut from their scores; so every result is
  one of these items, and in a filtered catalog without repeated items no item at position
  \<open>m\<close> or later is among the results, whatever it would have scored.
\<close>

theorem C9_candidate_cap:
  assumes run: "performSearch backend (IsFurniture analysis visionDescription) (Inr catalog) input s = (Inr res, s')"
    and cap: "maxCandidates (mergeConfig (config input)) = Some m" "0 \<le> m"
  shows "considered res = min (nat m) (length (priceRangeFilter (mergeConfig (config input)) catalog))
     \<and> (\<exists>queryEmbedding scored.
           scoreCandidates (mergeConfig (config input)) analysis
               (combinedQueryText analysis visionDescription (queryText input)) (queryText input)
               (priceRangeFilter (mergeConfig (config input)) catalog) queryEmbedding
               (productEmbeddingCache s') = Inr scored
         \<and> map product scored = take (nat m) (priceRangeFilter (mergeConfig (config input)) catalog)
         \<and> results res = finalResults (mergeConfig (config input)) scored)
     \<and> (\<forall>r \<in> set (results res).
           product r \<in> set (take (nat m) (priceRangeFilter (mergeConfig (config input)) catalog)))
     \<and> (distinct (priceRangeFilter (mergeConfig (config input)) catalog) \<longrightarrow>
          (\<forall>i. nat m \<le> i \<and> i < length (priceRangeFilter (mergeConfig (config input)) catalog) \<longrightarrow>
                priceRangeFilter (mergeConfig (config input)) catalog ! i \<notin> product ` set (results res)))"
proof -
  let ?cfg = "mergeConfig (config input)"
  let ?products = "priceRangeFilter ?cfg catalog"
  let ?combined = "combinedQueryText analysis visionDescription (queryText input)"
  from performSearch_Inr [OF run] obtain apiKey queryEmbedding productEmbeddings scored s1
    where emb: "getProductEmbeddings backend (candidates ?cfg ?products)
               (fst (embeddingSettings ?cfg)) apiKey (Some (snd (embeddingSettings ?cfg))) s1
             = (Inr productEmbeddings, s')"
      and sc: "scoreCandidates ?cfg analysis ?combined (queryText input) ?products queryEmbedding
               productEmbeddings = Inr scored"
      and res: "results res = finalResults ?cfg scored"
      and con: "considered res = length (candidates ?cfg ?products)"
    by auto
  from getProductEmbeddings_success [OF emb] have pe: "productEmbeddings = productEmbeddingCache s'"
    by blast
  note c = candidates_cap [OF cap sc]
  from c con have a: "considered res = min (nat m) (length ?products)" by (simp add: min.commute)
  from c sc res pe have b: "\<exists>queryEmbedding scored.
           scoreCandidates ?cfg analysis ?combined (queryText input) ?products queryEmbedding
               (productEmbeddingCache s') = Inr scored
         \<and> map product scored = take (nat m) ?products
         \<and> results res = finalResults ?cfg scored" by blast
  from a b c res show ?thesis by simp
qed


text \<open>
  A backend that answers every call with no embedding at all leaves the cache as it is,
  and the items \<^const>\<open>numbered\<close> all score 1/2 against the description \<open>t\<close>.
\<close>

lemma storeEmbeddings_Nil: "storeEmbeddings batch idxs [] cache = cache"
  by (cases idxs) simp_all

lemma batchLoop_silent:
  "client \<noteq> ''anthropic''
   \<longrightarrow> fst (batchLoop silentBackend client provider apiKey model missing i s) = None
     \<and> productEmbeddingCache (snd (batchLoop silentBackend client provider apiKey model missing i s))
         = productEmbeddingCache s"
proof (induction i s rule: batchLoop_cases [where backend = silentBackend and client = client
      and provider = provider and apiKey = apiKey and model = model and missing = missing])
  case (finished i s)
  then show ?case by simp
next
  case (skip i s)
  then show ?case by simp
next
  case (fail i s err s1)
  then show ?case by (auto simp: createEmbeddings_def silentBackend_def Let_def split: if_splits)
next
  case (ok i s embeddings s1 s2)
  show ?case
  proof
    assume c: "client \<noteq> ''anthropic''"
    with ok(3) have "embeddings = []" "productEmbeddingCache s1 = productEmbeddingCache s"
      by (auto simp: createEmbeddings_def silentBackend_def Let_def)
    with ok(4) have "productEmbeddingCache s2 = productEmbeddingCache s"
      by (simp add: storeEmbeddings_Nil)
    with ok(5) c show "fst (batchLoop silentBackend client provider apiKey model missing (i + BATCH_SIZE) s2) = None
     \<and> productEmbeddingCache (snd (batchLoop silentBackend client provider apiKey model missing (i + BATCH_SIZE) s2))
         = productEmbeddingCache s" by simp
  qed
qed

lemma getProductEmbeddings_silent:
  "fst (getProductEmbeddings silentBackend products ''openai'' apiKey model s)
     = Inr (productEmbeddingCache s)"
proof -
  have c: "createAIProviderClient ''openai'' = Inr ''openai''"
    by (simp add: createAIProviderClient_def)
  obtain e s' where loop: "batchLoop silentBackend ''openai'' ''openai'' apiKey model
      (missingProducts s products) 0 s = (e, s')"
    by (cases "batchLoop silentBackend ''openai'' ''openai'' apiKey model (missingProducts s products) 0 s")
  with batchLoop_silent [of "''openai''" "''openai''" apiKey model "missingProducts s products" 0 s]
  have "e = None" "productEmbeddingCache s' = productEmbeddingCache s" by simp_all
  with loop show ?thesis
    by (simp add: getProductEmbeddings_loop [OF c])
qed

lemma numbered_fields:
  "title (numbered i) = ''t''" "category (numbered i) = []" "type (numbered i) = []"
  "description (numbered i) = []" "price (numbered i) = 1"
  by (simp_all add: numbered_def tinyProduct_def)

lemma lexical_t:
  "computeLexicalScore (toLowerCase ''t'') (toLowerCase ''t   '') = 1"
proof -
  have "tokenize (toLowerCase ''t'') = [''t'']" "tokenize (toLowerCase ''t   '') = [''t'']"
    by code_simp+
  then show ?thesis by (simp add: computeLexicalScore_def)
qed

lemma numbered_score:
  assumes "meanPrice products = 1" and "priceProximityWeight cfg = Some 0.2"
    and "imageWeight cfg = Some 0.5" and "textWeight cfg = Some 0.3"
    and "scoreProduct cfg untypedAnalysis ''t'' None products qe Map.empty (numbered i) = Inr sp"
  shows "score sp = 1 / 2"
proof -
  have ps: "priceScore cfg None products (numbered i) = 1"
    using priceScore_mean [OF assms(2), of products "numbered i"] assms(1)
    by (simp add: numbered_fields)
  from assms(5) show ?thesis
    by (auto simp: scoreProduct_def typeMatchScore_def categoryMatchScore_def untypedAnalysis_def
          numbered_fields lexical_t ps assms(2,3,4) Let_def)
qed

lemma rangeInput_facts:
  "maxCandidates (mergeConfig (config rangeInput)) = Some 200"
  "topK (mergeConfig (config rangeInput)) = Some 20"
  "threshold (mergeConfig (config rangeInput)) = 0.35"
  "priceProximityWeight (mergeConfig (config rangeInput)) = Some 0.2"
  "imageWeight (mergeConfig (config rangeInput)) = Some 0.5"
  "textWeight (mergeConfig (config rangeInput)) = Some 0.3"
  "embeddingSettings (mergeConfig (config rangeInput)) = (''openai'', ''text-embedding-3-small'')"
  "finalEmbeddingApiKey rangeInput (visionProvider (mergeConfig (config rangeInput))) ''openai''
     = Inr ''vision-key''"
  "createAIProviderClient (visionProvider (mergeConfig (config rangeInput))) = Inr ''openai''"
  "queryText rangeInput = None"
  "combinedQueryText untypedAnalysis ''t'' None = ''t''"
  by (simp_all add: rangeInput_def mergeConfig_def spread_def noKeys_def defaultConfig_def threshold_def
        embeddingSettings_def visionProvider_def orString_def finalEmbeddingApiKey_def
        createAIProviderClient_def combinedQueryText_def untypedAnalysis_def Let_def)

lemma price_numbered: "price \<circ> numbered = (\<lambda>n. 1)"
  by (simp add: fun_eq_iff numbered_fields)

lemma bigCatalog_facts:
  "length bigCatalog = 300"
  "priceRangeFilter (mergeConfig (config rangeInput)) bigCatalog = map numbered [0..<250]"
  "candidates (mergeConfig (config rangeInput)) (map numbered [0..<250]) = map numbered [0..<200]"
  "meanPrice (map numbered [0..<250]) = 1"
proof -
  show "length bigCatalog = 300" by (simp add: bigCatalog_def)
  have range: "priceRangeEnabled (mergeConfig (config rangeInput)) = Some True"
    "priceRangeMin (mergeConfig (config rangeInput)) = Some 0"
    "priceRangeMax (mergeConfig (config rangeInput)) = Some 100"
    by (simp_all add: rangeInput_def mergeConfig_def spread_def noKeys_def defaultConfig_def)
  have out: "filter (\<lambda>p. 0 \<le> price p \<and> price p \<le> 100) (map priceyNo xs) = []" for xs
    by (simp add: filter_empty_conv priceyNo_def)
  have keep: "filter (\<lambda>p. 0 \<le> price p \<and> price p \<le> 100) (map numbered xs) = map numbered xs" for xs
    by (simp add: filter_id_conv numbered_fields)
  show "priceRangeFilter (mergeConfig (config rangeInput)) bigCatalog = map numbered [0..<250]"
    unfolding priceRangeFilter_def range bigCatalog_def by (simp only: prod.case option.case bool.case
          filter_append out keep append_Nil if_True)
  show "candidates (mergeConfig (config rangeInput)) (map numbered [0..<250]) = map numbered [0..<200]"
    unfolding candidates_def rangeInput_facts by (simp add: sliceTo_def take_map del: upt_Suc)
  show "meanPrice (map numbered [0..<250]) = 1"
    by (simp add: meanPrice_def price_numbered sum_list_triv del: upt_Suc)
qed


lemma finalResults_all:
  assumes "\<forall>c \<in> set scored. threshold cfg \<le> score c" and "topK cfg = Some k" and "0 \<le> k"
  shows "length (finalResults cfg scored) = min (nat k) (length scored)"
proof -
  from assms(1) have "filter (\<lambda>s. score s \<ge> threshold cfg) scored = scored" by simp
  then show ?thesis
    unfolding finalResults_alt using assms(2,3) by (simp add: sliceTo_def min.commute)
qed

text \<open>
  C9 on a catalog of 300 items with the default \<open>maxCandidates = 200\<close> and a price range
  of 0 to 100: the first 50 items cost 5000 and are filtered out, 250 items remain, the
  first 200 of them are scored, each reaches the minimum score, and the 20 results are
  all among these 200; none of the last 50 items is a result.
\<close>

theorem C9_candidate_cap_witness:
  "length bigCatalog = 300
   \<and> priceRangeFilter (mergeConfig (config rangeInput)) bigCatalog = map numbered [0..<250]
   \<and> maxCandidates (mergeConfig (config rangeInput)) = Some 200
   \<and> considered (projr (fst (performSearch silentBackend (IsFurniture untypedAnalysis ''t'')
         (Inr bigCatalog) rangeInput emptyState))) = 200
   \<and> length (results (projr (fst (performSearch silentBackend (IsFurniture untypedAnalysis ''t'')
         (Inr bigCatalog) rangeInput emptyState)))) = 20
   \<and> product ` set (results (projr (fst (performSearch silentBackend (IsFurniture untypedAnalysis ''t'')
         (Inr bigCatalog) rangeInput emptyState)))) \<subseteq> numbered ` {0..<200}
   \<and> numbered ` {200..<250} \<inter> product ` set (results (projr (fst (performSearch silentBackend
         (IsFurniture untypedAnalysis ''t'') (Inr bigCatalog) rangeInput emptyState)))) = {}"
proof -
  let ?cfg = "mergeConfig (config rangeInput)"
  let ?run = "performSearch silentBackend (IsFurniture untypedAnalysis ''t'') (Inr bigCatalog) rangeInput emptyState"
  let ?combined = "combinedQueryText untypedAnalysis ''t'' (queryText rangeInput)"
  let ?q = "createQueryEmbedding silentBackend ?combined ''openai'' ''vision-key''
              (Some ''text-embedding-3-small'') emptyState"
  let ?p = "getProductEmbeddings silentBackend (map numbered [0..<200]) ''openai'' ''vision-key''
              (Some ''text-embedding-3-small'') (snd ?q)"
  let ?scored = "scoreCandidates ?cfg untypedAnalysis ?combined (queryText rangeInput)
                   (map numbered [0..<250]) [] Map.empty"
  define products where "products = map numbered [0..<250]"
  have q: "?q = (Inr [], snd ?q)" and qc: "productEmbeddingCache (snd ?q) = Map.empty"
    by (simp_all add: createQueryEmbedding_def createEmbeddings_def silentBackend_def
          createAIProviderClient_def emptyState_def Let_def)
  have p: "?p = (Inr Map.empty, snd ?p)"
    using getProductEmbeddings_silent [of "map numbered [0..<200]" "''vision-key''"
        "Some ''text-embedding-3-small''" "snd ?q"]
    unfolding qc by (simp add: prod_eq_iff)
  have "\<not> isl ?scored"
    by (rule scoreCandidates_untyped) (simp add: untypedAnalysis_def)
  then have scored: "?scored = Inr (projr ?scored)" by simp
  from performSearch_furniture [of rangeInput "''vision-key''" "''openai''" silentBackend
      untypedAnalysis "''t''" emptyState "[]" "snd ?q" bigCatalog Map.empty "snd ?p" "projr ?scored"]
    q p scored
  have search: "\<not> isl (fst ?run)" "results (projr (fst ?run)) = finalResults ?cfg (projr ?scored)"
    by (simp_all add: rangeInput_facts(7,8,9) bigCatalog_facts(2,3))
  then have run: "?run = (Inr (projr (fst ?run)), snd ?run)" by (simp add: prod_eq_iff)
  have mp: "map product (projr ?scored) = map numbered [0..<200]"
    using scoreCandidates_products [OF scored] by (simp only: bigCatalog_facts(3))
  then have "length (map product (projr ?scored)) = length (map numbered [0..<200])" by (simp only:)
  then have len: "length (projr ?scored) = 200" by simp
  have half: "\<forall>c \<in> set (projr ?scored). threshold ?cfg \<le> score c"
  proof
    fix c assume c: "c \<in> set (projr ?scored)"
    from scored have "mapOrThrow (scoreProduct ?cfg untypedAnalysis ?combined (targetPrice (queryText rangeInput))
        (map numbered [0..<250]) [] Map.empty) (candidates ?cfg (map numbered [0..<250])) = Inr (projr ?scored)"
      by (simp add: scoreCandidates_def)
    from mapOrThrow_mem [OF this c] obtain x
      where x: "x \<in> set (candidates ?cfg (map numbered [0..<250]))"
        "scoreProduct ?cfg untypedAnalysis ?combined (targetPrice (queryText rangeInput))
           (map numbered [0..<250]) [] Map.empty x = Inr c" by blast
    from x(1) obtain i where i: "x = numbered i"
      unfolding bigCatalog_facts(3) by auto
    from x(2) have "scoreProduct ?cfg untypedAnalysis ''t'' None (map numbered [0..<250]) [] Map.empty
        (numbered i) = Inr c"
      unfolding i rangeInput_facts(10,11) by (simp add: targetPrice_def)
    from numbered_score [OF bigCatalog_facts(4) rangeInput_facts(4,5,6) this]
    show "threshold ?cfg \<le> score c" by (simp add: rangeInput_facts(3))
  qed
  from finalResults_all [OF half rangeInput_facts(2)] len search(2)
  have n: "length (results (projr (fst ?run))) = 20" by simp
  have "inj numbered"
    by (rule injI) (auto simp: numbered_def dest!: arg_cong [where f = "\<lambda>p. length (p_id p)"])
  then have "inj_on numbered (set [0..<250])"
    by (rule inj_on_subset [OF _ subset_UNIV])
  then have d: "distinct (map numbered [0..<250])"
    by (simp only: distinct_map distinct_upt simp_thms)
  have tk: "take 200 (map numbered [0..<250]) = map numbered [0..<200]"
    by (simp add: take_map del: upt_Suc)
  have nth: "\<And>i. i < 250 \<Longrightarrow> map numbered [0..<250] ! i = numbered i"
    by (simp del: upt_Suc)
  note c = C9_candidate_cap [OF run rangeInput_facts(1), unfolded bigCatalog_facts(2)]
  have z: "(0::int) \<le> 200" by simp
  note c1 = c [OF z, THEN conjunct1]
  note c3 = c [OF z, THEN conjunct2, THEN conjunct2, THEN conjunct1]
  note c4 = c [OF z, THEN conjunct2, THEN conjunct2, THEN conjunct2, rule_format, OF d]
  from c1 have a: "considered (projr (fst ?run)) = 200" by simp
  from c3 have b: "product ` set (results (projr (fst ?run))) \<subseteq> numbered ` {0..<200}"
    by (auto simp: tk simp del: upt_Suc)
  have e: "numbered ` {200..<250} \<inter> product ` set (results (projr (fst ?run))) = {}"
  proof -
    have "numbered i \<notin> product ` set (results (projr (fst ?run)))" if "200 \<le> i" "i < 250" for i
      using c4 [of i] that nth [of i] by simp
    then have "\<forall>i \<in> {200..<250}. numbered i \<notin> product ` set (results (projr (fst ?run)))"
      by simp
    then show ?thesis by blast
  qed
  from a b e n bigCatalog_facts(1,2) rangeInput_facts(1) show ?thesis by (intro conjI)
qed


section \<open>Properties of the returned embedding map\<close>

text \<open>
  C10 (as amended). What a successful \<^const>\<open>getProductEmbeddings\<close> returns is the whole
  cache after the call: every entry under an identifier that is not among the requested
  items is returned as it stood before the call. A requested item whose identifier was not
  in the cache when the call began and whose joined text is blank (as is the text of every
  requested item sharing its identifier) has no entry in the returned map, and scoring it
  with that map records a semantic score of 0.
\<close>

theorem C10_whole_cache:
  assumes "getProductEmbeddings backend products provider apiKey model s = (Inr m, s')"
  shows "m = productEmbeddingCache s'
     \<and> (\<forall>k. k \<notin> p_id ` set products \<longrightarrow> m k = productEmbeddingCache s k)
     \<and> (\<forall>p \<in> set products.
           productEmbeddingCache s (p_id p) = None
           \<and> (\<forall>q \<in> set products. p_id q = p_id p \<longrightarrow> trim (embeddingText q) = [])
           \<longrightarrow> m (p_id p) = None
               \<and> (\<forall>cfg analysis combined target ps qe sp.
                     scoreProduct cfg analysis combined target ps qe m p = Inr sp
                     \<longrightarrow> (''semantic'', 0) \<in> set (explanation sp)))"
proof -
  from getProductEmbeddings_success [OF assms] obtain client
    where loop: "batchLoop backend client provider apiKey model (missingProducts s products) 0 s = (None, s')"
      and m: "m = productEmbeddingCache s'" by blast
  have frame: "m k = productEmbeddingCache s k"
    if "k \<notin> p_id ` {p \<in> set (missingProducts s products). trim (embeddingText p) \<noteq> []}" for k
    using that batchLoop_frame [of k 0 "missingProducts s products" backend client provider apiKey model s]
    by (simp add: loop m)
  have other: "\<forall>k. k \<notin> p_id ` set products \<longrightarrow> m k = productEmbeddingCache s k"
  proof (intro allI impI)
    fix k assume "k \<notin> p_id ` set products"
    then have "k \<notin> p_id ` {p \<in> set (missingProducts s products). trim (embeddingText p) \<noteq> []}"
      by (auto simp: missingProducts_def)
    then show "m k = productEmbeddingCache s k" by (rule frame)
  qed
  have blank: "m (p_id p) = None
               \<and> (\<forall>cfg analysis combined target ps qe sp.
                     scoreProduct cfg analysis combined target ps qe m p = Inr sp
                     \<longrightarrow> (''semantic'', 0) \<in> set (explanation sp))"
    if "p \<in> set products" and none: "productEmbeddingCache s (p_id p) = None"
      and all: "\<forall>q \<in> set products. p_id q = p_id p \<longrightarrow> trim (embeddingText q) = []" for p
  proof -
    from all have "p_id p \<notin> p_id ` {q \<in> set (missingProducts s products). trim (embeddingText q) \<noteq> []}"
      by (auto simp: missingProducts_def)
    from frame [OF this] none have absent: "m (p_id p) = None" by simp
    have "(''semantic'', 0) \<in> set (explanation sp)"
      if "scoreProduct cfg analysis combined target ps qe m p = Inr sp"
      for cfg analysis combined target ps qe sp
      using scoreProduct_explanation [OF that] absent by auto
    with absent show ?thesis by blast
  qed
  show ?thesis
  proof (intro conjI ballI impI)
    show "m = productEmbeddingCache s'" by (rule m)
    show "\<forall>k. k \<notin> p_id ` set products \<longrightarrow> m k = productEmbeddingCache s k" by (rule other)
  next
    fix p
    assume "p \<in> set products"
      and "productEmbeddingCache s (p_id p) = None
           \<and> (\<forall>q \<in> set products. p_id q = p_id p \<longrightarrow> trim (embeddingText q) = [])"
    then show "m (p_id p) = None" using blank by blast
  next
    fix p
    assume "p \<in> set products"
      and "productEmbeddingCache s (p_id p) = None
           \<and> (\<forall>q \<in> set products. p_id q = p_id p \<longrightarrow> trim (embeddingText q) = [])"
    then have "p \<in> set products" "productEmbeddingCache s (p_id p) = None"
      "\<forall>q \<in> set products. p_id q = p_id p \<longrightarrow> trim (embeddingText q) = []" by simp_all
    from blank [OF this] show "\<forall>cfg analysis combined target ps qe sp.
                     scoreProduct cfg analysis combined target ps qe m p = Inr sp
                     \<longrightarrow> (''semantic'', 0) \<in> set (explanation sp)" by (rule conjunct2)
  qed
qed

text \<open>
  The amended C10 on a cache holding an entry from an earlier request, asked for one blank
  item and one described item.
\<close>

theorem C10_whole_cache_witness:
  "''old'' \<notin> p_id ` set [blankProduct, oakBench]
   \<and> projr (fst (getProductEmbeddings unitBackend [blankProduct, oakBench] ''openai'' ''key'' None staleState))
        ''old'' = Some [1, 2]
   \<and> projr (fst (getProductEmbeddings unitBackend [blankProduct, oakBench] ''openai'' ''key'' None staleState))
        (p_id blankProduct) = None
   \<and> (''semantic'', 0) \<in> set (explanation (projr (scoreProduct defaultConfig untypedAnalysis [] None
        [blankProduct, oakBench] [1]
        (projr (fst (getProductEmbeddings unitBackend [blankProduct, oakBench] ''openai'' ''key'' None staleState)))
        blankProduct)))"
proof -
  let ?run = "getProductEmbeddings unitBackend [blankProduct, oakBench] ''openai'' ''key'' None staleState"
  let ?m = "projr (fst ?run)"
  let ?score = "scoreProduct defaultConfig untypedAnalysis [] None [blankProduct, oakBench] [1] ?m blankProduct"
  have "\<not> isl (fst ?run)" by code_simp
  then have run: "?run = (Inr ?m, snd ?run)" by (simp add: prod_eq_iff)
  have old: "''old'' \<notin> p_id ` set [blankProduct, oakBench]"
    by (simp add: blankProduct_def oakBench_def)
  have stale: "productEmbeddingCache staleState ''old'' = Some [1, 2]"
    "productEmbeddingCache staleState (p_id blankProduct) = None"
    by (simp_all add: staleState_def blankProduct_def)
  have blank: "\<forall>q \<in> set [blankProduct, oakBench]. p_id q = p_id blankProduct \<longrightarrow> trim (embeddingText q) = []"
    by (simp add: blankProduct_def oakBench_def embeddingText_def trim_def)
  have "\<not> isl ?score"
    by (rule scoreProduct_untyped) (simp add: untypedAnalysis_def)
  then have score: "?score = Inr (projr ?score)" by simp
  have mem: "blankProduct \<in> set [blankProduct, oakBench]" by simp
  note c = C10_whole_cache [OF run]
  note c2 = c [THEN conjunct2, THEN conjunct1, rule_format]
  note c3 = c [THEN conjunct2, THEN conjunct2, rule_format]
  from c2 [OF old] stale(1) have a: "?m ''old'' = Some [1, 2]" by simp
  note b = c3 [OF mem conjI [OF stale(2) blank]]
  note b1 = b [THEN conjunct1]
  note b2 = b [THEN conjunct2, rule_format, OF score]
  from old a b1 b2 show ?thesis by (intro conjI)
qed

text \<open>
  C10 as stated fails: a requested item with empty joined text is present in the returned
  map when its identifier was cached before the call, and also when another requested item
  with the same identifier has text.
\<close>

theorem C10_counterexample:
  "blankProduct \<in> set [blankProduct] \<and> trim (embeddingText blankProduct) = []
   \<and> \<not> isl (fst (getProductEmbeddings unitBackend [blankProduct] ''openai'' ''key'' None cachedBlankState))
   \<and> projr (fst (getProductEmbeddings unitBackend [blankProduct] ''openai'' ''key'' None cachedBlankState))
        (p_id blankProduct) = Some [9]
   \<and> blankProduct \<in> set [blankProduct, namesake]
   \<and> \<not> isl (fst (getProductEmbeddings unitBackend [blankProduct, namesake] ''openai'' ''key'' None emptyState))
   \<and> projr (fst (getProductEmbeddings unitBackend [blankProduct, namesake] ''openai'' ''key'' None emptyState))
        (p_id blankProduct) = Some [1]"
  by code_simp

section \<open>Properties of the choice of embedding provider\<close>

lemma createAIProviderClient_Inr:
  "createAIProviderClient provider = Inr client \<Longrightarrow> client = provider"
  by (auto simp: createAIProviderClient_def split: if_splits)

lemma getProductEmbeddings_calls:
  "\<exists>new. calls (snd (getProductEmbeddings backend products provider apiKey model s)) = calls s @ new
     \<and> (\<forall>c \<in> set new. callProvider c = provider \<and> callModel c = model)"
proof (cases "createAIProviderClient provider")
  case (Inl err)
  then show ?thesis by (simp add: getProductEmbeddings_unsupported)
next
  case (Inr client)
  with createAIProviderClient_Inr have "createAIProviderClient provider = Inr provider" by blast
  from getProductEmbeddings_snd [OF this] batchLoop_calls [of backend provider provider apiKey model _ 0 s]
  show ?thesis by simp
qed

lemma createQueryEmbedding_calls:
  "\<exists>new. calls (snd (createQueryEmbedding backend q provider apiKey model s)) = calls s @ new
     \<and> (\<forall>c \<in> set new. callProvider c = provider \<and> callModel c = model)"
proof (cases "createAIProviderClient provider")
  case (Inl err)
  then show ?thesis by (simp add: createQueryEmbedding_def)
next
  case (Inr client)
  with createAIProviderClient_Inr have c: "createAIProviderClient provider = Inr provider" by blast
  obtain r s1 where e: "createEmbeddings backend provider apiKey model [q] s = (r, s1)"
    by (cases "createEmbeddings backend provider apiKey model [q] s")
  then have "snd (createQueryEmbedding backend q provider apiKey model s) = s1"
    by (auto simp: createQueryEmbedding_def c split: sum.splits list.splits option.splits)
  with createEmbeddings_calls [OF e] show ?thesis by simp
qed

lemma embeddingSettings_not_anthropic: "fst (embeddingSettings cfg) \<noteq> ''anthropic''"
  by (simp add: embeddingSettings_def Let_def)

lemma embeddingSettings_redirect:
  "orString (embeddingProvider cfg) (visionProvider cfg) = ''anthropic''
   \<Longrightarrow> embeddingSettings cfg = (''openai'', orString (embeddingModel cfg) ''text-embedding-3-small'')"
  by (simp add: embeddingSettings_def Let_def orString_def split: option.splits)

lemma performSearch_state:
  "snd (performSearch backend vision fetched input s) = s
   \<or> (\<exists>apiKey combined products.
        snd (performSearch backend vision fetched input s) =
          snd (getProductEmbeddings backend products
                 (fst (embeddingSettings (mergeConfig (config input)))) apiKey
                 (Some (snd (embeddingSettings (mergeConfig (config input)))))
                 (snd (createQueryEmbedding backend combined
                         (fst (embeddingSettings (mergeConfig (config input)))) apiKey
                         (Some (snd (embeddingSettings (mergeConfig (config input))))) s))))"
  unfolding performSearch_def Let_def
  by (auto split: sum.splits VisionOutcome.splits prod.splits) (metis snd_conv)+

lemma performSearch_calls:
  "\<exists>new. calls (snd (performSearch backend vision fetched input s)) = calls s @ new
     \<and> (\<forall>c \<in> set new. callProvider c = fst (embeddingSettings (mergeConfig (config input)))
                        \<and> callModel c = Some (snd (embeddingSettings (mergeConfig (config input)))))"
proof -
  let ?provider = "fst (embeddingSettings (mergeConfig (config input)))"
  let ?model = "Some (snd (embeddingSettings (mergeConfig (config input))))"
  from performSearch_state [of backend vision fetched input s]
  consider "snd (performSearch backend vision fetched input s) = s"
    | apiKey combined products where "snd (performSearch backend vision fetched input s) =
          snd (getProductEmbeddings backend products ?provider apiKey ?model
                 (snd (createQueryEmbedding backend combined ?provider apiKey ?model s)))"
    by blast
  then show ?thesis
  proof cases
    case 1
    then show ?thesis by simp
  next
    case 2
    let ?s1 = "snd (createQueryEmbedding backend combined ?provider apiKey ?model s)"
    from createQueryEmbedding_calls [of backend combined ?provider apiKey ?model s] obtain new1
      where n1: "calls ?s1 = calls s @ new1"
        "\<forall>c \<in> set new1. callProvider c = ?provider \<and> callModel c = ?model" by blast
    from getProductEmbeddings_calls [of backend products ?provider apiKey ?model ?s1] obtain new2
      where n2: "calls (snd (getProductEmbeddings backend products ?provider apiKey ?model ?s1)) = calls ?s1 @ new2"
        "\<forall>c \<in> set new2. callProvider c = ?provider \<and> callModel c = ?model" by blast
    from 2 n1 n2 have "calls (snd (performSearch backend vision fetched input s)) = calls s @ (new1 @ new2)
        \<and> (\<forall>c \<in> set (new1 @ new2). callProvider c = ?provider \<and> callModel c = ?model)" by auto
    then show ?thesis by blast
  qed
qed

lemma createEmbeddings_anthropic:
  "createEmbeddings backend ''anthropic'' apiKey model texts s =
     (Inl anthropicEmbeddingsError,
      s\<lparr>calls := calls s @ [\<lparr>callProvider = ''anthropic'', callApiKey = apiKey, callModel = model,
                               callTexts = texts\<rparr>]\<rparr>)"
  by (simp add: createEmbeddings_def Let_def)

text \<open>
  C1 (as amended). \<^verbatim>\<open>createEmbeddings\<close> of the Anthropic client fails at once with its
  fixed error, whatever the backend, and writes nothing to the cache. The search pipeline
  never selects that client for embeddings: a configuration whose embedding provider
  resolves to \<^verbatim>\<open>"anthropic"\<close> is redirected to \<^verbatim>\<open>"openai"\<close>, with the caller's
  embedding model when one is configured and \<^verbatim>\<open>"text-embedding-3-small"\<close> otherwise,
  and every embedding call \<^const>\<open>performSearch\<close> issues goes to the provider so
  resolved, with the model so resolved.
\<close>

theorem C1_embedding_provider:
  "fst (createEmbeddings backend ''anthropic'' apiKey model texts s) = Inl anthropicEmbeddingsError
   \<and> productEmbeddingCache (snd (createEmbeddings backend ''anthropic'' apiKey model texts s))
       = productEmbeddingCache s
   \<and> fst (embeddingSettings (mergeConfig (config input))) \<noteq> ''anthropic''
   \<and> (orString (embeddingProvider (mergeConfig (config input))) (visionProvider (mergeConfig (config input)))
         = ''anthropic''
       \<longrightarrow> embeddingSettings (mergeConfig (config input))
             = (''openai'', orString (embeddingModel (mergeConfig (config input))) ''text-embedding-3-small''))
   \<and> (\<exists>new. calls (snd (performSearch backend vision fetched input s)) = calls s @ new
         \<and> (\<forall>c \<in> set new. callProvider c = fst (embeddingSettings (mergeConfig (config input)))
                            \<and> callModel c = Some (snd (embeddingSettings (mergeConfig (config input))))
                            \<and> callProvider c \<noteq> ''anthropic''))"
proof -
  from performSearch_calls [of backend vision fetched input s] obtain new
    where "calls (snd (performSearch backend vision fetched input s)) = calls s @ new"
      "\<forall>c \<in> set new. callProvider c = fst (embeddingSettings (mergeConfig (config input)))
                        \<and> callModel c = Some (snd (embeddingSettings (mergeConfig (config input))))" by blast
  then have "\<exists>new. calls (snd (performSearch backend vision fetched input s)) = calls s @ new
         \<and> (\<forall>c \<in> set new. callProvider c = fst (embeddingSettings (mergeConfig (config input)))
                            \<and> callModel c = Some (snd (embeddingSettings (mergeConfig (config input))))
                            \<and> callProvider c \<noteq> ''anthropic'')"
    using embeddingSettings_not_anthropic by metis
  then show ?thesis
    using embeddingSettings_not_anthropic [of "mergeConfig (config input)"]
      embeddingSettings_redirect [of "mergeConfig (config input)"]
    by (simp add: createEmbeddings_anthropic)
qed

text \<open>
  A search for a bench over two items, by a caller whose embedding provider resolves to
  \<^verbatim>\<open>"anthropic"\<close>: it succeeds, with one embedding call for the query and one for
  the batch of products.
\<close>

lemma redirected_search:
  assumes settings: "embeddingSettings (mergeConfig (config input)) = (''openai'', m)"
    and key: "finalEmbeddingApiKey input (visionProvider (mergeConfig (config input))) ''openai'' = Inr k"
    and client: "createAIProviderClient (visionProvider (mergeConfig (config input))) = Inr visionClient"
    and cap: "maxCandidates (mergeConfig (config input)) = Some 200"
    and range: "priceRangeEnabled (mergeConfig (config input)) = None"
  shows "\<not> isl (fst (performSearch unitBackend (IsFurniture benchAnalysis ''a wooden bench'')
             (Inr [oakBench, stoolItem]) input emptyState))
     \<and> length (calls (snd (performSearch unitBackend (IsFurniture benchAnalysis ''a wooden bench'')
             (Inr [oakBench, stoolItem]) input emptyState))) = 2"
proof -
  let ?cfg = "mergeConfig (config input)"
  let ?combined = "combinedQueryText benchAnalysis ''a wooden bench'' (queryText input)"
  let ?q = "createQueryEmbedding unitBackend ?combined ''openai'' k (Some m) emptyState"
  let ?p = "getProductEmbeddings unitBackend [oakBench, stoolItem] ''openai'' k (Some m) (snd ?q)"
  let ?scored = "scoreCandidates ?cfg benchAnalysis ?combined (queryText input)
                   (priceRangeFilter ?cfg [oakBench, stoolItem]) (projr (fst ?q)) (projr (fst ?p))"
  have cands: "candidates ?cfg (priceRangeFilter ?cfg [oakBench, stoolItem]) = [oakBench, stoolItem]"
    by (simp add: candidates_def priceRangeFilter_def cap range sliceTo_def)
  have qs: "?q = (Inr [1], emptyState\<lparr>calls := [\<lparr>callProvider = ''openai'', callApiKey = k,
                     callModel = Some m, callTexts = [?combined]\<rparr>]\<rparr>)"
    by (simp add: createQueryEmbedding_def createAIProviderClient_def createEmbeddings_def
          unitBackend_def emptyState_def Let_def)
  have q: "?q = (Inr (projr (fst ?q)), snd ?q)" by (simp add: qs)
  have texts: "hasValidText [oakBench, stoolItem]" by code_simp
  have miss: "missingProducts (snd ?q) [oakBench, stoolItem] = [oakBench, stoolItem]"
    unfolding qs by (simp add: missingProducts_def emptyState_def)
  have sl: "slice [oakBench, stoolItem] 0 (0 + BATCH_SIZE) = [oakBench, stoolItem]"
    by (simp add: slice_def BATCH_SIZE_def)
  let ?texts = "validTexts (map embeddingText (slice [oakBench, stoolItem] 0 (0 + BATCH_SIZE)))"
  define embeddings where "embeddings = map (\<lambda>t. \<lparr>embedding = Some [1::real]\<rparr>) ?texts"
  define s1 where "s1 = (snd ?q)\<lparr>calls := calls (snd ?q) @
      [\<lparr>callProvider = ''openai'', callApiKey = k, callModel = Some m, callTexts = ?texts\<rparr>]\<rparr>"
  have ce: "createEmbeddings unitBackend ''openai'' k (Some m) ?texts (snd ?q) = (Inr embeddings, s1)"
    unfolding createEmbeddings_def Let_def unitBackend_def embeddings_def s1_def by simp
  have s1: "length (calls s1) = 2"
    unfolding s1_def qs by simp
  let ?s2 = "s1\<lparr>productEmbeddingCache :=
                 storeEmbeddings (slice [oakBench, stoolItem] 0 (0 + BATCH_SIZE))
                   (validIndices (map embeddingText (slice [oakBench, stoolItem] 0 (0 + BATCH_SIZE)))) embeddings
                   (productEmbeddingCache s1)\<rparr>"
  have texts': "hasValidText (slice [oakBench, stoolItem] 0 (0 + BATCH_SIZE))"
    unfolding sl by (rule texts)
  have step: "batchLoop unitBackend ''openai'' ''openai'' k (Some m) [oakBench, stoolItem] 0 (snd ?q)
      = batchLoop unitBackend ''openai'' ''openai'' k (Some m) [oakBench, stoolItem] (0 + BATCH_SIZE) ?s2"
    by (rule batchLoop_ok [OF _ texts' ce]) simp
  have "batchLoop unitBackend ''openai'' ''openai'' k (Some m) [oakBench, stoolItem] (0 + BATCH_SIZE) ?s2
      = (None, ?s2)"
    by (rule batchLoop_done) (simp add: BATCH_SIZE_def)
  with step have loop: "batchLoop unitBackend ''openai'' ''openai'' k (Some m) [oakBench, stoolItem] 0 (snd ?q)
      = (None, ?s2)" by simp
  have p: "?p = (Inr (productEmbeddingCache ?s2), ?s2)"
    using getProductEmbeddings_loop [of "''openai''" "''openai''" unitBackend "[oakBench, stoolItem]" k "Some m" "snd ?q"]
    by (simp add: createAIProviderClient_def miss loop)
  have tm: "\<not> isl (typeMatchScore (analysisType benchAnalysis) oakBench)"
    "\<not> isl (typeMatchScore (analysisType benchAnalysis) stoolItem)" by code_simp+
  have "\<not> isl ?scored"
    unfolding scoreCandidates_def cands
    by (rule mapOrThrow_total) (auto simp: scoreProduct_isl tm)
  then have scored: "?scored = Inr (projr ?scored)" by simp
  from performSearch_furniture [of input k visionClient unitBackend
      benchAnalysis "''a wooden bench''" emptyState "projr (fst ?q)" "snd ?q" "[oakBench, stoolItem]"
      "productEmbeddingCache ?s2" ?s2 "projr ?scored"]
    key client q p scored s1
  show ?thesis
    by (simp add: settings cands)
qed

lemma anthropicInput_facts:
  "embeddingProvider (mergeConfig (config anthropicInput)) = Some ''anthropic''"
  "orString (embeddingProvider (mergeConfig (config anthropicInput)))
      (visionProvider (mergeConfig (config anthropicInput))) = ''anthropic''"
  "embeddingSettings (mergeConfig (config anthropicInput)) = (''openai'', ''text-embedding-3-small'')"
  "finalEmbeddingApiKey anthropicInput (visionProvider (mergeConfig (config anthropicInput))) ''openai''
     = Inr ''embedding-key''"
  "createAIProviderClient (visionProvider (mergeConfig (config anthropicInput))) = Inr ''anthropic''"
  "maxCandidates (mergeConfig (config anthropicInput)) = Some 200"
  "priceRangeEnabled (mergeConfig (config anthropicInput)) = None"
  by (simp_all add: anthropicInput_def mergeConfig_def spread_def noKeys_def defaultConfig_def
        embeddingSettings_def visionProvider_def orString_def finalEmbeddingApiKey_def
        createAIProviderClient_def Let_def)

lemma voyageInput_facts:
  "embeddingModel (mergeConfig (config voyageInput)) = Some ''voyage-3''"
  "orString (embeddingProvider (mergeConfig (config voyageInput)))
      (visionProvider (mergeConfig (config voyageInput))) = ''anthropic''"
  "embeddingSettings (mergeConfig (config voyageInput)) = (''openai'', ''voyage-3'')"
  "finalEmbeddingApiKey voyageInput (visionProvider (mergeConfig (config voyageInput))) ''openai''
     = Inr ''embedding-key''"
  "createAIProviderClient (visionProvider (mergeConfig (config voyageInput))) = Inr ''openai''"
  "maxCandidates (mergeConfig (config voyageInput)) = Some 200"
  "priceRangeEnabled (mergeConfig (config voyageInput)) = None"
  by (simp_all add: voyageInput_def mergeConfig_def spread_def noKeys_def defaultConfig_def
        embeddingSettings_def visionProvider_def orString_def finalEmbeddingApiKey_def
        createAIProviderClient_def Let_def)

lemma map_two: "length xs = 2 \<Longrightarrow> \<forall>c \<in> set xs. f c = v \<Longrightarrow> map f xs = [v, v]"
  by (cases xs; cases "tl xs") auto

text \<open>
  C1 as stated fails: a search configured with the embedding provider \<^verbatim>\<open>"anthropic"\<close>
  does not end in an error; it succeeds, and its two embedding calls (the query and one
  batch of products) go to \<^verbatim>\<open>"openai"\<close>.
\<close>

theorem C1_counterexample:
  "embeddingProvider (mergeConfig (config anthropicInput)) = Some ''anthropic''
   \<and> \<not> isl (fst (performSearch unitBackend (IsFurniture benchAnalysis ''a wooden bench'')
         (Inr [oakBench, stoolItem]) anthropicInput emptyState))
   \<and> map callProvider (calls (snd (performSearch unitBackend (IsFurniture benchAnalysis ''a wooden bench'')
         (Inr [oakBench, stoolItem]) anthropicInput emptyState))) = [''openai'', ''openai'']"
proof -
  let ?run = "performSearch unitBackend (IsFurniture benchAnalysis ''a wooden bench'')
                (Inr [oakBench, stoolItem]) anthropicInput emptyState"
  note r = redirected_search [OF anthropicInput_facts(3,4,5,6,7)]
  from performSearch_calls [of unitBackend "IsFurniture benchAnalysis ''a wooden bench''"
      "Inr [oakBench, stoolItem]" anthropicInput emptyState]
  obtain new where new: "calls (snd ?run) = calls emptyState @ new"
    "\<forall>c \<in> set new. callProvider c = fst (embeddingSettings (mergeConfig (config anthropicInput)))
        \<and> callModel c = Some (snd (embeddingSettings (mergeConfig (config anthropicInput))))"
    by blast
  from new have all: "\<forall>c \<in> set (calls (snd ?run)). callProvider c = ''openai''"
    by (simp add: emptyState_def anthropicInput_facts)
  from map_two [OF r [THEN conjunct2] all] r anthropicInput_facts(1) show ?thesis by simp
qed

text \<open>
  The amended C1 on the same search, and on one whose caller also names the embedding
  model \<^verbatim>\<open>"voyage-3"\<close>: both embedding calls go to \<^verbatim>\<open>"openai"\<close> with that model.
\<close>

theorem C1_embedding_provider_witness:
  "orString (embeddingProvider (mergeConfig (config anthropicInput)))
      (visionProvider (mergeConfig (config anthropicInput))) = ''anthropic''
   \<and> embeddingSettings (mergeConfig (config anthropicInput)) = (''openai'', ''text-embedding-3-small'')
   \<and> orString (embeddingProvider (mergeConfig (config voyageInput)))
      (visionProvider (mergeConfig (config voyageInput))) = ''anthropic''
   \<and> embeddingSettings (mergeConfig (config voyageInput)) = (''openai'', ''voyage-3'')
   \<and> fst (createEmbeddings unitBackend ''anthropic'' ''embedding-key'' None [''oak bench''] emptyState)
       = Inl anthropicEmbeddingsError
   \<and> map callProvider (calls (snd (performSearch unitBackend
         (IsFurniture benchAnalysis ''a wooden bench'') (Inr [oakBench, stoolItem]) voyageInput emptyState)))
       = [''openai'', ''openai'']
   \<and> map callModel (calls (snd (performSearch unitBackend
         (IsFurniture benchAnalysis ''a wooden bench'') (Inr [oakBench, stoolItem]) voyageInput emptyState)))
       = [Some ''voyage-3'', Some ''voyage-3'']"
proof -
  let ?run = "performSearch unitBackend (IsFurniture benchAnalysis ''a wooden bench'')
                (Inr [oakBench, stoolItem]) voyageInput emptyState"
  note a = C1_embedding_provider [of unitBackend "''embedding-key''" None "[''oak bench'']" emptyState
      anthropicInput "IsFurniture benchAnalysis ''a wooden bench''" "Inr [oakBench, stoolItem]"]
  note a1 = a [THEN conjunct1]
  note a4 = a [THEN conjunct2, THEN conjunct2, THEN conjunct2, THEN conjunct1, rule_format,
      OF anthropicInput_facts(2), unfolded anthropicInput_facts]
  note c = C1_embedding_provider [of unitBackend "''embedding-key''" None "[''oak bench'']" emptyState
      voyageInput "IsFurniture benchAnalysis ''a wooden bench''" "Inr [oakBench, stoolItem]"]
  note c4 = c [THEN conjunct2, THEN conjunct2, THEN conjunct2, THEN conjunct1, rule_format,
      OF voyageInput_facts(2)]
  note c5 = c [THEN conjunct2, THEN conjunct2, THEN conjunct2, THEN conjunct2]
  have m: "orString (embeddingModel (mergeConfig (config voyageInput))) ''text-embedding-3-small'' = ''voyage-3''"
    by (simp add: voyageInput_facts(1) orString_def)
  have am: "orString (embeddingModel (mergeConfig (config anthropicInput))) ''text-embedding-3-small''
      = ''text-embedding-3-small''"
    by (simp add: anthropicInput_def mergeConfig_def spread_def noKeys_def defaultConfig_def orString_def)
  from c5 obtain new where new: "calls (snd ?run) = calls emptyState @ new"
    "\<forall>c \<in> set new. callProvider c = fst (embeddingSettings (mergeConfig (config voyageInput)))
        \<and> callModel c = Some (snd (embeddingSettings (mergeConfig (config voyageInput))))
        \<and> callProvider c \<noteq> ''anthropic''"
    by blast
  from new c4 m have all: "\<forall>c \<in> set (calls (snd ?run)). callProvider c = ''openai''"
    "\<forall>c \<in> set (calls (snd ?run)). callModel c = Some ''voyage-3''"
    by (simp_all add: emptyState_def)
  note r = redirected_search [OF voyageInput_facts(3,4,5,6,7), THEN conjunct2]
  from map_two [OF r all(1)] map_two [OF r all(2)] a1 c4 m anthropicInput_facts(2,3) voyageInput_facts(2)
  show ?thesis by simp
qed


end
